theory Spec2Isabelle
  imports Main
begin

section \<open>The quota store of google-search-mcp\<close>

text \<open>
  A shallow embedding of \<^verbatim>\<open>src/global-config.ts\<close> (class \<^verbatim>\<open>GlobalConfigManager\<close>),
  \<^verbatim>\<open>src/config.ts\<close> (class \<^verbatim>\<open>GoogleSearchConfig\<close>) and the error path of
  \<^verbatim>\<open>src/tools/search.ts\<close> (\<^verbatim>\<open>execute\<close>).

  Conventions of the model:
  \<^item> a JavaScript \<^verbatim>\<open>number\<close> holding a counter is an \<open>int\<close>, and \<^verbatim>\<open>+\<close>, \<^verbatim>\<open>++\<close> and
    \<^verbatim>\<open>-\<close> round as doubles do (subsection Numbers);
  \<^item> a JavaScript string is a \<open>string\<close>, one \<open>char\<close> per code unit below 256;
  \<^item> \<^verbatim>\<open>new Date().toISOString()\<close> is the parameter \<open>now\<close> of every method of the
    manager: one call reads one instant. \<^verbatim>\<open>execute\<close> awaits a remote call and has two
    instants, one before and one after it, and a parameter for what other calls do to
    the shared store in between;
  \<^item> \<^verbatim>\<open>JSON.parse\<close> and \<^verbatim>\<open>JSON.stringify\<close> belong to the runtime and are
    parameters (record \<open>runtime\<close>);
  \<^item> the file at \<^verbatim>\<open>configPath\<close> is the only file the code touches; it is the record
    \<open>file_system\<close>, which may refuse to be read or written;
  \<^item> an exception is a value \<open>Inl e\<close> of the result type \<open>exn + 'a\<close>, and
    \<^verbatim>\<open>try { ... } catch { ... }\<close> is \<open>try_catch\<close>;
  \<^item> \<^verbatim>\<open>console.error\<close> output is not modelled.
\<close>

subsection \<open>Data model\<close>

text \<open>\<^verbatim>\<open>interface ApiKeyState\<close>; the field \<^verbatim>\<open>id\<close> is \<open>id'\<close> here.\<close>

record ApiKeyState =
  id' :: string
  apiKey :: string
  searchEngineId :: string
  dailyUsage :: int
  dailyLimit :: int
  lastReset :: string
  isActive :: bool

text \<open>
  \<^verbatim>\<open>interface GlobalConfig\<close>. The object comes from \<^verbatim>\<open>JSON.parse\<close> unvalidated and is
  taken at its declared type, except for \<^verbatim>\<open>version\<close>, whose absence the code tests:
  \<open>None\<close> is \<^verbatim>\<open>undefined\<close>. JSON text of any other shape (no \<^verbatim>\<open>keys\<close> array, records
  with missing fields) is outside the model.
\<close>

record GlobalConfig =
  keys :: "ApiKeyState list"
  lastUpdated :: string
  version :: "string option"

datatype exn = ReadError | SyntaxError | WriteError

record file_system =
  contents :: "string option"
  readable :: bool
  writable :: bool

record runtime =
  JSON_parse :: "string \<Rightarrow> GlobalConfig option"
  JSON_stringify :: "GlobalConfig \<Rightarrow> string"

text \<open>The private fields of a \<^verbatim>\<open>GlobalConfigManager\<close>, together with the file it owns.\<close>

record manager =
  config :: GlobalConfig
  fs :: file_system

subsection \<open>Exceptions\<close>

definition and_then :: "exn + 'a \<Rightarrow> ('a \<Rightarrow> exn + 'b) \<Rightarrow> exn + 'b" where
  "and_then r f = (case r of Inl e \<Rightarrow> Inl e | Inr v \<Rightarrow> f v)"

definition try_catch :: "exn + 'a \<Rightarrow> (exn \<Rightarrow> exn + 'a) \<Rightarrow> exn + 'a" where
  "try_catch body handler = (case body of Inl e \<Rightarrow> handler e | Inr v \<Rightarrow> Inr v)"

subsection \<open>The file\<close>

definition existsSync :: "file_system \<Rightarrow> bool" where
  "existsSync f = (contents f \<noteq> None)"

definition readFileSync :: "file_system \<Rightarrow> exn + string" where
  "readFileSync f =
     (case contents f of
        None \<Rightarrow> Inl ReadError
      | Some data \<Rightarrow> if readable f then Inr data else Inl ReadError)"

definition writeFileSync :: "string \<Rightarrow> file_system \<Rightarrow> exn + file_system" where
  "writeFileSync data f = (if writable f then Inr (f\<lparr>contents := Some data\<rparr>) else Inl WriteError)"

subsection \<open>Clock\<close>

text \<open>\<^verbatim>\<open>new Date().toISOString().split('T')[0]\<close>: the text before the first \<^verbatim>\<open>T\<close>.\<close>

definition today_of :: "string \<Rightarrow> string" where
  "today_of now = takeWhile (\<lambda>c. c \<noteq> CHR ''T'') now"

subsection \<open>Numbers\<close>

text \<open>
  The counters are integers (the spec's data model) held in doubles. The sum or difference
  of two integer-valued doubles is the exact result rounded to the nearest double, ties
  to the even significand. A double has 53 significant bits: \<open>ulp n\<close> is the distance
  between neighbouring doubles at the magnitude \<open>n\<close>, which is 1 below \<open>2^53\<close>, 2 from
  there to \<open>2^54\<close>, and so on. Numbers with a fraction, and magnitudes from \<open>2^1024\<close> on
  (\<^verbatim>\<open>Infinity\<close>), are outside the model; an integer beyond \<open>2^53\<close> that is no double
  (such as \<open>2^53 + 1\<close>) is no value a counter can hold.
\<close>

function ulp :: "int \<Rightarrow> int" where
  "ulp n = (if n < 2 ^ 53 then 1 else 2 * ulp (n div 2))"
  by pat_completeness auto
termination
  by (relation "measure (\<lambda>n. nat n)") auto

definition round_magnitude :: "int \<Rightarrow> int" where
  "round_magnitude n =
     (let q = ulp n; k = n div q; r = n mod q
      in if 2 * r < q then k * q
         else if q < 2 * r then (k + 1) * q
         else if even k then k * q else (k + 1) * q)"

definition to_double :: "int \<Rightarrow> int" where
  "to_double x = (if x < 0 then - round_magnitude (- x) else round_magnitude x)"

definition number_add :: "int \<Rightarrow> int \<Rightarrow> int" where
  "number_add a b = to_double (a + b)"

definition number_sub :: "int \<Rightarrow> int \<Rightarrow> int" where
  "number_sub a b = to_double (a - b)"

subsection \<open>\<^verbatim>\<open>GlobalConfigManager\<close>\<close>

text \<open>\<^verbatim>\<open>saveConfig\<close>: the timestamp is set before the write, so it stays when the write fails.\<close>

definition saveConfig :: "runtime \<Rightarrow> string \<Rightarrow> manager \<Rightarrow> exn + manager" where
  "saveConfig rt now m =
     (let m1 = m\<lparr>config := (config m)\<lparr>lastUpdated := now\<rparr>\<rparr> in
      try_catch
        (and_then (writeFileSync (JSON_stringify rt (config m1)) (fs m1))
           (\<lambda>f. Inr (m1\<lparr>fs := f\<rparr>)))
        (\<lambda>error. Inr m1))"

text \<open>The loop of \<^verbatim>\<open>resetDailyUsageIfNeeded\<close>, with its flag \<^verbatim>\<open>hasChanges\<close>.\<close>

fun reset_loop :: "string \<Rightarrow> ApiKeyState list \<Rightarrow> bool \<Rightarrow> ApiKeyState list \<times> bool" where
  "reset_loop today [] hasChanges = ([], hasChanges)"
| "reset_loop today (key # rest) hasChanges =
     (if lastReset key \<noteq> today
      then (let (rest', h) = reset_loop today rest True
            in (key\<lparr>dailyUsage := 0, lastReset := today, isActive := True\<rparr> # rest', h))
      else (let (rest', h) = reset_loop today rest hasChanges
            in (key # rest', h)))"

definition resetDailyUsageIfNeeded :: "runtime \<Rightarrow> string \<Rightarrow> manager \<Rightarrow> exn + manager" where
  "resetDailyUsageIfNeeded rt now m =
     (let today = today_of now;
          (ks, hasChanges) = reset_loop today (keys (config m)) False;
          m1 = m\<lparr>config := (config m)\<lparr>keys := ks\<rparr>\<rparr>
      in if hasChanges then saveConfig rt now m1 else Inr m1)"

text \<open>The loop of \<^verbatim>\<open>getAvailableKey\<close>; \<open>None\<close> is \<^verbatim>\<open>null\<close>.\<close>

fun first_available :: "ApiKeyState list \<Rightarrow> ApiKeyState option" where
  "first_available [] = None"
| "first_available (key # rest) =
     (if isActive key \<and> dailyUsage key < dailyLimit key then Some key
      else first_available rest)"

definition getAvailableKey ::
  "runtime \<Rightarrow> string \<Rightarrow> manager \<Rightarrow> exn + (ApiKeyState option \<times> manager)" where
  "getAvailableKey rt now m =
     and_then (resetDailyUsageIfNeeded rt now m)
       (\<lambda>m1. Inr (first_available (keys (config m1)), m1))"

text \<open>
  \<^verbatim>\<open>JSON.parse(data)\<close> throws a \<^verbatim>\<open>SyntaxError\<close> on text that is not JSON.
\<close>

definition parse :: "runtime \<Rightarrow> string \<Rightarrow> exn + GlobalConfig" where
  "parse rt data = (case JSON_parse rt data of None \<Rightarrow> Inl SyntaxError | Some c \<Rightarrow> Inr c)"

text \<open>\<^verbatim>\<open>!this.config.version\<close>: \<^verbatim>\<open>undefined\<close> and the empty string are falsy.\<close>

definition falsy :: "string option \<Rightarrow> bool" where
  "falsy v = (case v of None \<Rightarrow> True | Some s \<Rightarrow> s = [])"

definition migrateIfNeeded :: "runtime \<Rightarrow> string \<Rightarrow> manager \<Rightarrow> exn + manager" where
  "migrateIfNeeded rt now m =
     (if falsy (version (config m))
      then saveConfig rt now (m\<lparr>config := (config m)\<lparr>version := Some ''1.0.0''\<rparr>\<rparr>)
      else Inr m)"

text \<open>
  \<^verbatim>\<open>loadConfig\<close>, run by the constructor on the file \<open>f\<close>. In the model only
  \<^verbatim>\<open>readFileSync\<close> and \<^verbatim>\<open>JSON.parse\<close> throw inside the \<^verbatim>\<open>try\<close>, both before any
  write, so the handler starts from the file as it was found.
\<close>

definition loadConfig :: "runtime \<Rightarrow> string \<Rightarrow> file_system \<Rightarrow> exn + manager" where
  "loadConfig rt now f =
     try_catch
       (if existsSync f
        then and_then (readFileSync f) (\<lambda>data.
             and_then (parse rt data) (\<lambda>c.
             and_then (migrateIfNeeded rt now \<lparr>config = c, fs = f\<rparr>) (\<lambda>m1.
             resetDailyUsageIfNeeded rt now m1)))
        else Inr \<lparr>config = \<lparr>keys = [], lastUpdated = now, version = Some ''1.0.0''\<rparr>, fs = f\<rparr>)
       (\<lambda>error.
          Inr \<lparr>config = \<lparr>keys = [], lastUpdated = now, version = Some ''1.0.0''\<rparr>, fs = f\<rparr>)"

text \<open>\<^verbatim>\<open>String.prototype.trim\<close>, on the white space below code unit 256.\<close>

definition isWhiteSpace :: "char \<Rightarrow> bool" where
  "isWhiteSpace c =
     (c \<in> set [CHR 0x09, CHR 0x0A, CHR 0x0B, CHR 0x0C, CHR 0x0D, CHR 0x20, CHR 0xA0])"

definition trim :: "string \<Rightarrow> string" where
  "trim s = rev (dropWhile isWhiteSpace (rev (dropWhile isWhiteSpace s)))"

text \<open>The decimal text of \<^verbatim>\<open>${i + 1}\<close> in a template literal.\<close>

definition digit :: "nat \<Rightarrow> char" where
  "digit d = ''0123456789'' ! d"

function toString :: "nat \<Rightarrow> string" where
  "toString n = (if n < 10 then [digit n] else toString (n div 10) @ [digit (n mod 10)])"
  by pat_completeness auto
termination
  by (relation "measure (\<lambda>n. n)") auto

text \<open>
  \<^verbatim>\<open>searchEngineIds[i]?.trim() || searchEngineIds[0]?.trim() || ''\<close>: reading past the end
  of the array gives \<^verbatim>\<open>undefined\<close>, and \<^verbatim>\<open>||\<close> passes over \<^verbatim>\<open>undefined\<close> and
  over the empty string.
\<close>

definition at_index :: "string list \<Rightarrow> nat \<Rightarrow> string option" where
  "at_index xs i = (if i < length xs then Some (xs ! i) else None)"

definition searchEngineId_for :: "string list \<Rightarrow> nat \<Rightarrow> string" where
  "searchEngineId_for searchEngineIds i =
     (let a = map_option trim (at_index searchEngineIds i);
          b = map_option trim (at_index searchEngineIds 0)
      in if \<not> falsy a then the a else if \<not> falsy b then the b else [])"

text \<open>The \<^verbatim>\<open>for\<close> loop of \<^verbatim>\<open>setupKeys\<close>: \<open>ks\<close> is \<^verbatim>\<open>this.config.keys\<close>.\<close>

function setup_loop ::
  "string \<Rightarrow> string list \<Rightarrow> string list \<Rightarrow> nat \<Rightarrow> ApiKeyState list \<Rightarrow> ApiKeyState list" where
  "setup_loop now apiKeys searchEngineIds i ks =
     (if i < length apiKeys
      then setup_loop now apiKeys searchEngineIds (i + 1)
             (ks @ [\<lparr>id' = ''key_'' @ toString (i + 1),
                     apiKey = trim (apiKeys ! i),
                     searchEngineId = searchEngineId_for searchEngineIds i,
                     dailyUsage = 0,
                     dailyLimit = 100,
                     lastReset = today_of now,
                     isActive = True\<rparr>])
      else ks)"
  by pat_completeness auto
termination
  by (relation "measure (\<lambda>(now, apiKeys, searchEngineIds, i, ks). length apiKeys - i)") auto

definition setupKeys ::
  "runtime \<Rightarrow> string \<Rightarrow> string list \<Rightarrow> string list \<Rightarrow> manager \<Rightarrow> exn + manager" where
  "setupKeys rt now apiKeys searchEngineIds m =
     (let m1 = m\<lparr>config := (config m)\<lparr>keys := []\<rparr>\<rparr>;
          m2 = m1\<lparr>config := (config m1)
                 \<lparr>keys := setup_loop now apiKeys searchEngineIds 0 (keys (config m1))\<rparr>\<rparr>
      in saveConfig rt now m2)"

text \<open>
  \<^verbatim>\<open>this.config.keys.find(k => k.id === keyId)\<close> returns the first matching element of the
  array itself, here its position; \<open>None\<close> is \<^verbatim>\<open>undefined\<close>.
\<close>

fun find_ref :: "('a \<Rightarrow> bool) \<Rightarrow> 'a list \<Rightarrow> nat option" where
  "find_ref P [] = None"
| "find_ref P (x # xs) = (if P x then Some 0 else map_option Suc (find_ref P xs))"

definition incrementUsage :: "runtime \<Rightarrow> string \<Rightarrow> string \<Rightarrow> manager \<Rightarrow> exn + manager" where
  "incrementUsage rt now keyId m =
     (case find_ref (\<lambda>k. id' k = keyId) (keys (config m)) of
        Some i \<Rightarrow>
          (let key = keys (config m) ! i
           in saveConfig rt now
                (m\<lparr>config := (config m)
                    \<lparr>keys := (keys (config m))[i := key\<lparr>dailyUsage := number_add (dailyUsage key) 1\<rparr>]\<rparr>\<rparr>))
      | None \<Rightarrow> Inr m)"

definition disableKey ::
  "runtime \<Rightarrow> string \<Rightarrow> string \<Rightarrow> string \<Rightarrow> manager \<Rightarrow> exn + manager" where
  "disableKey rt now keyId reason m =
     (case find_ref (\<lambda>k. id' k = keyId) (keys (config m)) of
        Some i \<Rightarrow>
          (let key = keys (config m) ! i
           in saveConfig rt now
                (m\<lparr>config := (config m)
                    \<lparr>keys := (keys (config m))[i := key\<lparr>isActive := False\<rparr>]\<rparr>\<rparr>))
      | None \<Rightarrow> Inr m)"

text \<open>The value of \<^verbatim>\<open>getQuotaStatus\<close>; \<open>key_id\<close> is the field \<^verbatim>\<open>id\<close> of an entry.\<close>

record key_status =
  key_id :: string
  used :: int
  limit :: int
  remaining :: int
  active :: bool

record quota_status =
  totalUsed :: int
  totalLimit :: int
  keysStatus :: "key_status list"

definition getQuotaStatus ::
  "runtime \<Rightarrow> string \<Rightarrow> manager \<Rightarrow> exn + (quota_status \<times> manager)" where
  "getQuotaStatus rt now m =
     and_then (resetDailyUsageIfNeeded rt now m)
       (\<lambda>m1.
          let totalUsed = foldl (\<lambda>sum key. number_add sum (dailyUsage key)) 0 (keys (config m1));
              totalLimit = foldl (\<lambda>sum key. number_add sum (dailyLimit key)) 0 (keys (config m1));
              keysStatus =
                map (\<lambda>key. \<lparr>key_id = id' key,
                              used = dailyUsage key,
                              limit = dailyLimit key,
                              remaining = number_sub (dailyLimit key) (dailyUsage key),
                              active = isActive key\<rparr>)
                  (keys (config m1))
          in Inr (\<lparr>totalUsed = totalUsed, totalLimit = totalLimit, keysStatus = keysStatus\<rparr>,
                  m1))"

definition hasValidConfig :: "manager \<Rightarrow> bool" where
  "hasValidConfig m =
     (length (keys (config m)) > 0 \<and>
      list_ex (\<lambda>k. apiKey k \<noteq> [] \<and> searchEngineId k \<noteq> []) (keys (config m)))"

subsection \<open>\<^verbatim>\<open>GoogleSearchConfig\<close>\<close>

text \<open>
  \<^verbatim>\<open>interface GoogleApiKey\<close> has the fields of \<^verbatim>\<open>ApiKeyState\<close>. On values
  \<^verbatim>\<open>GoogleSearchConfig.getAvailableKey\<close> rebuilds the record field by field; what the new
  object means for sharing is the subject of the reference model below.
\<close>

type_synonym GoogleApiKey = ApiKeyState

definition GoogleSearchConfig_getAvailableKey ::
  "runtime \<Rightarrow> string \<Rightarrow> manager \<Rightarrow> exn + (GoogleApiKey option \<times> manager)" where
  "GoogleSearchConfig_getAvailableKey rt now m =
     and_then (getAvailableKey rt now m)
       (\<lambda>(key, m1).
          case key of
            None \<Rightarrow> Inr (None, m1)
          | Some key \<Rightarrow>
              Inr (Some \<lparr>id' = id' key,
                         apiKey = apiKey key,
                         searchEngineId = searchEngineId key,
                         dailyUsage = dailyUsage key,
                         dailyLimit = dailyLimit key,
                         lastReset = lastReset key,
                         isActive = isActive key\<rparr>, m1))"

subsection \<open>The records as shared objects\<close>

text \<open>
  In JavaScript \<^verbatim>\<open>this.config.keys\<close> is an array of references, and
  \<^verbatim>\<open>GlobalConfigManager.getAvailableKey\<close> returns one of them. To speak about sharing, the
  manager is modelled a second time with an explicit heap: \<open>heap\<close> is the list of all
  \<^verbatim>\<open>ApiKeyState\<close>-shaped objects, the address of an object is its position, \<open>keyRefs\<close> is
  the array \<^verbatim>\<open>this.config.keys\<close>, and an object literal allocates at the end of the heap.
  The functions below are the same source functions, read on references; \<open>deref\<close> gives
  the manager by value that a heap state stands for.
\<close>

record ref_manager =
  heap :: "ApiKeyState list"
  keyRefs :: "nat list"
  updated :: string
  vers :: "string option"
  disk :: file_system

definition deref :: "ref_manager \<Rightarrow> manager" where
  "deref r =
     \<lparr>config = \<lparr>keys = map (\<lambda>a. heap r ! a) (keyRefs r),
                 lastUpdated = updated r, version = vers r\<rparr>,
      fs = disk r\<rparr>"

text \<open>No reference of the array dangles, and no object is in the array twice.\<close>

definition well_formed :: "ref_manager \<Rightarrow> bool" where
  "well_formed r = (list_all (\<lambda>a. a < length (heap r)) (keyRefs r) \<and> distinct (keyRefs r))"

definition saveConfig_ref :: "runtime \<Rightarrow> string \<Rightarrow> ref_manager \<Rightarrow> exn + ref_manager" where
  "saveConfig_ref rt now r =
     (let r1 = r\<lparr>updated := now\<rparr> in
      try_catch
        (and_then (writeFileSync (JSON_stringify rt (config (deref r1))) (disk r1))
           (\<lambda>f. Inr (r1\<lparr>disk := f\<rparr>)))
        (\<lambda>error. Inr r1))"

fun reset_loop_ref ::
  "string \<Rightarrow> nat list \<Rightarrow> ApiKeyState list \<Rightarrow> bool \<Rightarrow> ApiKeyState list \<times> bool" where
  "reset_loop_ref today [] h hasChanges = (h, hasChanges)"
| "reset_loop_ref today (a # rest) h hasChanges =
     (if lastReset (h ! a) \<noteq> today
      then reset_loop_ref today rest
             (h[a := (h ! a)\<lparr>dailyUsage := 0, lastReset := today, isActive := True\<rparr>]) True
      else reset_loop_ref today rest h hasChanges)"

definition resetDailyUsageIfNeeded_ref ::
  "runtime \<Rightarrow> string \<Rightarrow> ref_manager \<Rightarrow> exn + ref_manager" where
  "resetDailyUsageIfNeeded_ref rt now r =
     (let today = today_of now;
          (h, hasChanges) = reset_loop_ref today (keyRefs r) (heap r) False;
          r1 = r\<lparr>heap := h\<rparr>
      in if hasChanges then saveConfig_ref rt now r1 else Inr r1)"

fun first_available_ref :: "ApiKeyState list \<Rightarrow> nat list \<Rightarrow> nat option" where
  "first_available_ref h [] = None"
| "first_available_ref h (a # rest) =
     (if isActive (h ! a) \<and> dailyUsage (h ! a) < dailyLimit (h ! a) then Some a
      else first_available_ref h rest)"

text \<open>\<^verbatim>\<open>GlobalConfigManager.getAvailableKey\<close>: the value is a reference of the array.\<close>

definition getAvailableKey_ref ::
  "runtime \<Rightarrow> string \<Rightarrow> ref_manager \<Rightarrow> exn + (nat option \<times> ref_manager)" where
  "getAvailableKey_ref rt now r =
     and_then (resetDailyUsageIfNeeded_ref rt now r)
       (\<lambda>r1. Inr (first_available_ref (heap r1) (keyRefs r1), r1))"

text \<open>
  \<^verbatim>\<open>GoogleSearchConfig.getAvailableKey\<close>: the object literal is a new object, at the
  first free address, holding the fields read from the selected record.
\<close>

definition GoogleSearchConfig_getAvailableKey_ref ::
  "runtime \<Rightarrow> string \<Rightarrow> ref_manager \<Rightarrow> exn + (nat option \<times> ref_manager)" where
  "GoogleSearchConfig_getAvailableKey_ref rt now r =
     and_then (getAvailableKey_ref rt now r)
       (\<lambda>(key, r1).
          case key of
            None \<Rightarrow> Inr (None, r1)
          | Some a \<Rightarrow>
              (let key = heap r1 ! a
               in Inr (Some (length (heap r1)),
                       r1\<lparr>heap := heap r1 @
                            [\<lparr>id' = id' key,
                              apiKey = apiKey key,
                              searchEngineId = searchEngineId key,
                              dailyUsage = dailyUsage key,
                              dailyLimit = dailyLimit key,
                              lastReset = lastReset key,
                              isActive = isActive key\<rparr>]\<rparr>)))"

text \<open>A caller's assignment to fields of the object at address \<open>a\<close>.\<close>

definition mutate :: "nat \<Rightarrow> (ApiKeyState \<Rightarrow> ApiKeyState) \<Rightarrow> ref_manager \<Rightarrow> ref_manager" where
  "mutate a g r = r\<lparr>heap := (heap r)[a := g (heap r ! a)]\<rparr>"

subsection \<open>\<^verbatim>\<open>execute\<close> of the search tool\<close>

text \<open>
  The value of \<^verbatim>\<open>error.code\<close> of a caught error: absent, a number or a string.
  The remote call \<^verbatim>\<open>customsearch.cse.list\<close> is the parameter \<open>cse_list\<close>, a function of
  the \<^verbatim>\<open>auth\<close> and \<^verbatim>\<open>cx\<close> it is given. It throws, or it returns a response: one from
  which \<^verbatim>\<open>searchResponse.data.items || []\<close> and \<^verbatim>\<open>items.map\<close> yield the items, or a
  malformed one, on which one of the two throws a \<^verbatim>\<open>TypeError\<close> (an error without
  \<^verbatim>\<open>code\<close>).

  \<^verbatim>\<open>config\<close> is one object of the module, shared by all calls of \<^verbatim>\<open>execute\<close>, and a
  call is suspended at its \<^verbatim>\<open>await\<close>. The first call of \<^verbatim>\<open>execute\<close> to the store reads
  the clock at \<open>now1\<close>; while the call is suspended, whatever else runs changes the store
  by \<open>during_await\<close>; everything after the \<^verbatim>\<open>await\<close>, and the \<^verbatim>\<open>catch\<close> block, reads
  the clock at \<open>now2\<close>.
\<close>

datatype code_value = NoCode | NumCode int | StrCode string

record js_error =
  code :: code_value
  message :: string

datatype search_response = Items "string list" | Malformed

datatype response =
    SearchResults "string list" string quota_status
  | SearchError string code_value quota_status

definition thrown_by :: "manager \<Rightarrow> exn + 'a \<Rightarrow> (js_error \<times> manager) + 'a" where
  "thrown_by m r =
     (case r of Inl e \<Rightarrow> Inl (\<lparr>code = NoCode, message = []\<rparr>, m) | Inr v \<Rightarrow> Inr v)"

text \<open>
  The \<^verbatim>\<open>try\<close> block: a thrown error comes with the state at the throw. The usage is
  counted right after the \<^verbatim>\<open>await\<close>, before the response is read.
\<close>

definition execute_try ::
  "runtime \<Rightarrow> string \<Rightarrow> string \<Rightarrow> (string \<Rightarrow> string \<Rightarrow> js_error + search_response)
     \<Rightarrow> (manager \<Rightarrow> manager) \<Rightarrow> manager
     \<Rightarrow> (js_error \<times> manager) + (response \<times> manager)" where
  "execute_try rt now1 now2 cse_list during_await m =
     (case thrown_by m (GoogleSearchConfig_getAvailableKey rt now1 m) of
        Inl t \<Rightarrow> Inl t
      | Inr (apiKey_opt, m1) \<Rightarrow>
          (case apiKey_opt of
             None \<Rightarrow>
               Inl (\<lparr>code = NoCode,
                     message = ''All Google API keys have reached their daily quota. Try again tomorrow.''\<rparr>,
                    m1)
           | Some k \<Rightarrow>
               (let m1' = during_await m1
                in case cse_list (apiKey k) (searchEngineId k) of
                     Inl error \<Rightarrow> Inl (error, m1')
                   | Inr searchResponse \<Rightarrow>
                       (case thrown_by m1' (incrementUsage rt now2 (id' k) m1') of
                          Inl t \<Rightarrow> Inl t
                        | Inr m2 \<Rightarrow>
                            (case searchResponse of
                               Malformed \<Rightarrow>
                                 Inl (\<lparr>code = NoCode, message = ''TypeError''\<rparr>, m2)
                             | Items items \<Rightarrow>
                                 (case thrown_by m2 (getQuotaStatus rt now2 m2) of
                                    Inl t \<Rightarrow> Inl t
                                  | Inr (q, m3) \<Rightarrow>
                                      Inr (SearchResults items (id' k) q, m3)))))))"

text \<open>The \<^verbatim>\<open>catch\<close> block.\<close>

definition execute_catch ::
  "runtime \<Rightarrow> string \<Rightarrow> js_error \<Rightarrow> manager \<Rightarrow> exn + (response \<times> manager)" where
  "execute_catch rt now error m =
     and_then
       (if code error = NumCode 403
        then and_then (GoogleSearchConfig_getAvailableKey rt now m)
               (\<lambda>(apiKey_opt, m1).
                  case apiKey_opt of
                    Some k \<Rightarrow> disableKey rt now (id' k) ''Quota exceeded or 403 error'' m1
                  | None \<Rightarrow> Inr m1)
        else Inr m)
       (\<lambda>m2. and_then (getQuotaStatus rt now m2)
                (\<lambda>(q, m3). Inr (SearchError (message error) (code error) q, m3)))"

definition execute ::
  "runtime \<Rightarrow> string \<Rightarrow> string \<Rightarrow> (string \<Rightarrow> string \<Rightarrow> js_error + search_response)
     \<Rightarrow> (manager \<Rightarrow> manager) \<Rightarrow> manager \<Rightarrow> exn + (response \<times> manager)" where
  "execute rt now1 now2 cse_list during_await m =
     (case execute_try rt now1 now2 cse_list during_await m of
        Inl (error, m') \<Rightarrow> execute_catch rt now2 error m'
      | Inr r \<Rightarrow> Inr r)"

text \<open>
  What the \<^verbatim>\<open>catch\<close> block of another call of \<^verbatim>\<open>execute\<close> does to the store, for use as
  \<open>during_await\<close>.
\<close>

definition other_catch :: "runtime \<Rightarrow> string \<Rightarrow> js_error \<Rightarrow> manager \<Rightarrow> manager" where
  "other_catch rt now error m =
     (case execute_catch rt now error m of Inl e \<Rightarrow> m | Inr (r, m') \<Rightarrow> m')"

subsection \<open>Sequences of operations\<close>

text \<open>
  A caller's use of the public methods of \<^verbatim>\<open>GlobalConfigManager\<close>, each at its own
  instant; the values the methods return are dropped, the manager is threaded through.
\<close>

datatype operation =
    GetAvailableKey
  | IncrementUsage string
  | GetQuotaStatus
  | DisableKey string string
  | HasValidConfig
  | SetupKeys "string list" "string list"

fun perform :: "runtime \<Rightarrow> string \<Rightarrow> operation \<Rightarrow> manager \<Rightarrow> exn + manager" where
  "perform rt now GetAvailableKey m = and_then (getAvailableKey rt now m) (\<lambda>(r, m1). Inr m1)"
| "perform rt now (IncrementUsage keyId) m = incrementUsage rt now keyId m"
| "perform rt now GetQuotaStatus m = and_then (getQuotaStatus rt now m) (\<lambda>(r, m1). Inr m1)"
| "perform rt now (DisableKey keyId reason) m = disableKey rt now keyId reason m"
| "perform rt now HasValidConfig m = (let r = hasValidConfig m in Inr m)"
| "perform rt now (SetupKeys apiKeys searchEngineIds) m = setupKeys rt now apiKeys searchEngineIds m"

fun run :: "runtime \<Rightarrow> (string \<times> operation) list \<Rightarrow> manager \<Rightarrow> exn + manager" where
  "run rt [] m = Inr m"
| "run rt ((now, op) # rest) m = and_then (perform rt now op m) (run rt rest)"

definition is_setup :: "operation \<Rightarrow> bool" where
  "is_setup op = (case op of SetupKeys a b \<Rightarrow> True | _ \<Rightarrow> False)"

subsection \<open>Vocabulary of the statements\<close>

text \<open>The spec's "eligible credential": active and under its daily limit.\<close>

definition eligible :: "ApiKeyState \<Rightarrow> bool" where
  "eligible k = (isActive k \<and> dailyUsage k < dailyLimit k)"

text \<open>The day-rollover reset of one record.\<close>

definition rollover :: "string \<Rightarrow> ApiKeyState \<Rightarrow> ApiKeyState" where
  "rollover today k =
     (if lastReset k \<noteq> today
      then k\<lparr>dailyUsage := 0, lastReset := today, isActive := True\<rparr> else k)"

text \<open>
  The scope id of record \<open>i\<close> in the words of the spec: the one at the same position, the
  first one when that position is missing, the empty string when there is none.
\<close>

definition spec_scope_id :: "string list \<Rightarrow> nat \<Rightarrow> string" where
  "spec_scope_id scopeIds i =
     (if i < length scopeIds then scopeIds ! i
      else if scopeIds \<noteq> [] then scopeIds ! 0 else [])"

text \<open>A string that \<^verbatim>\<open>trim\<close> leaves alone and that is not empty.\<close>

definition clean :: "string \<Rightarrow> bool" where
  "clean s = (s \<noteq> [] \<and> \<not> isWhiteSpace (hd s) \<and> \<not> isWhiteSpace (last s))"

text \<open>The object literal pushed by the loop of \<^verbatim>\<open>setupKeys\<close> at index \<open>i\<close>.\<close>

definition new_key :: "string \<Rightarrow> string list \<Rightarrow> string list \<Rightarrow> nat \<Rightarrow> ApiKeyState" where
  "new_key now apiKeys sids i =
     \<lparr>id' = ''key_'' @ toString (i + 1),
      apiKey = trim (apiKeys ! i),
      searchEngineId = searchEngineId_for sids i,
      dailyUsage = 0, dailyLimit = 100, lastReset = today_of now, isActive = True\<rparr>"

text \<open>
  The record that \<^verbatim>\<open>find(k => k.id === keyId)\<close> reaches, the first with the id, is
  fresh for the day \<open>today\<close>, has the limit \<open>L\<close> and a usage that is not negative and at
  least \<open>n\<close>.
\<close>

definition tracked :: "string \<Rightarrow> string \<Rightarrow> int \<Rightarrow> int \<Rightarrow> ApiKeyState list \<Rightarrow> bool" where
  "tracked keyId today L n ks =
     (case find (\<lambda>k. id' k = keyId) ks of
        None \<Rightarrow> False
      | Some k \<Rightarrow> lastReset k = today \<and> dailyLimit k = L \<and> 0 \<le> dailyUsage k \<and> n \<le> dailyUsage k)"

text \<open>The counters of the records are not negative and each of the two sums is at most \<open>2^53\<close>.\<close>

definition within_safe_range :: "ApiKeyState list \<Rightarrow> bool" where
  "within_safe_range ks =
     (list_all (\<lambda>k. 0 \<le> dailyUsage k \<and> 0 \<le> dailyLimit k) ks
      \<and> sum_list (map dailyUsage ks) \<le> 2 ^ 53
      \<and> sum_list (map dailyLimit ks) \<le> 2 ^ 53)"

text \<open>How often a sequence of operations calls \<^verbatim>\<open>incrementUsage\<close> with the id.\<close>

definition increments :: "string \<Rightarrow> (string \<times> operation) list \<Rightarrow> nat" where
  "increments keyId ops = length (filter (\<lambda>(t, op). op = IncrementUsage keyId) ops)"

text \<open>Every operation of the sequence runs on the day \<open>today\<close>, and none is \<^verbatim>\<open>setupKeys\<close>.\<close>

definition same_day_use :: "string \<Rightarrow> (string \<times> operation) list \<Rightarrow> bool" where
  "same_day_use today ops = list_all (\<lambda>(t, op). today_of t = today \<and> \<not> is_setup op) ops"

subsection \<open>A sample installation\<close>

text \<open>
  Concrete values for the instances below: a runtime whose parser accepts only the text
  \<open>legacy\<close> (standing for an object with no records and no \<^verbatim>\<open>version\<close>) and whose
  serialiser writes the number of records; three instants around the midnight between
  2026-11-02 and 2026-11-03; some records; a file and a manager.
\<close>

definition sample_runtime :: runtime where
  "sample_runtime =
     \<lparr>JSON_parse =
        (\<lambda>data. if data = ''legacy'' then Some \<lparr>keys = [], lastUpdated = [], version = None\<rparr>
                 else None),
      JSON_stringify = (\<lambda>c. ''keys='' @ toString (length (keys c)))\<rparr>"

definition evening :: string where
  "evening = ''2026-11-02T23:59:59.900Z''"

definition morning :: string where
  "morning = ''2026-11-03T00:00:00.500Z''"

definition noon :: string where
  "noon = ''2026-11-03T12:00:00.000Z''"

definition stale_key :: ApiKeyState where
  "stale_key =
     \<lparr>id' = ''key_1'', apiKey = ''AIza-one'', searchEngineId = ''cx-one'',
      dailyUsage = 57, dailyLimit = 100, lastReset = ''2026-11-02'', isActive = False\<rparr>"

definition spent_key :: ApiKeyState where
  "spent_key =
     \<lparr>id' = ''key_2'', apiKey = ''AIza-two'', searchEngineId = ''cx-two'',
      dailyUsage = 100, dailyLimit = 100, lastReset = ''2026-11-03'', isActive = True\<rparr>"

definition fresh_key :: ApiKeyState where
  "fresh_key =
     \<lparr>id' = ''key_3'', apiKey = ''AIza-three'', searchEngineId = ''cx-three'',
      dailyUsage = 3, dailyLimit = 100, lastReset = ''2026-11-03'', isActive = True\<rparr>"

definition small_key :: ApiKeyState where
  "small_key =
     \<lparr>id' = ''key_1'', apiKey = ''AIza-one'', searchEngineId = ''cx-one'',
      dailyUsage = 0, dailyLimit = 2, lastReset = ''2026-11-03'', isActive = True\<rparr>"

definition idle_key :: ApiKeyState where
  "idle_key =
     \<lparr>id' = ''key_2'', apiKey = ''AIza-two'', searchEngineId = ''cx-two'',
      dailyUsage = 3, dailyLimit = 100, lastReset = ''2026-11-02'', isActive = True\<rparr>"

definition full_key :: ApiKeyState where
  "full_key =
     \<lparr>id' = ''key_1'', apiKey = ''AIza-one'', searchEngineId = ''cx-one'',
      dailyUsage = 100, dailyLimit = 100, lastReset = ''2026-11-02'', isActive = True\<rparr>"

definition pending_key :: ApiKeyState where
  "pending_key =
     \<lparr>id' = ''key_1'', apiKey = ''AIza-one'', searchEngineId = ''cx-one'',
      dailyUsage = 0, dailyLimit = 2, lastReset = ''2026-11-02'', isActive = True\<rparr>"

definition twin_key :: ApiKeyState where
  "twin_key =
     \<lparr>id' = ''key_1'', apiKey = ''AIza-twin'', searchEngineId = ''cx-twin'',
      dailyUsage = 3, dailyLimit = 100, lastReset = ''2026-11-03'', isActive = True\<rparr>"

definition spent_twin :: ApiKeyState where
  "spent_twin =
     \<lparr>id' = ''key_3'', apiKey = ''AIza-two'', searchEngineId = ''cx-two'',
      dailyUsage = 100, dailyLimit = 100, lastReset = ''2026-11-03'', isActive = True\<rparr>"

definition big_key :: ApiKeyState where
  "big_key =
     \<lparr>id' = ''key_1'', apiKey = ''AIza-one'', searchEngineId = ''cx-one'',
      dailyUsage = 9007199254740992, dailyLimit = 9007199254740994,
      lastReset = ''2026-11-03'', isActive = True\<rparr>"

definition unit_key :: ApiKeyState where
  "unit_key =
     \<lparr>id' = ''key_2'', apiKey = ''AIza-two'', searchEngineId = ''cx-two'',
      dailyUsage = 1, dailyLimit = 100, lastReset = ''2026-11-03'', isActive = True\<rparr>"

text \<open>
  Remote calls: one that always throws the given error, one that always returns a
  malformed response; and a store that nothing else touches during the \<^verbatim>\<open>await\<close>.
\<close>

definition failing :: "js_error \<Rightarrow> string \<Rightarrow> string \<Rightarrow> js_error + search_response" where
  "failing error auth cx = Inl error"

definition garbled :: "string \<Rightarrow> string \<Rightarrow> js_error + search_response" where
  "garbled auth cx = Inr Malformed"

definition undisturbed :: "manager \<Rightarrow> manager" where
  "undisturbed m = m"

definition sample_heap :: ref_manager where
  "sample_heap =
     \<lparr>heap = [fresh_key, spent_key], keyRefs = [1, 0],
      updated = ''2026-11-02T09:00:00.000Z'', vers = Some ''1.0.0'',
      disk = \<lparr>contents = Some ''keys=2'', readable = True, writable = True\<rparr>\<rparr>"

definition sample_disk :: file_system where
  "sample_disk = \<lparr>contents = Some ''keys=3'', readable = True, writable = True\<rparr>"

definition sample_manager :: "ApiKeyState list \<Rightarrow> manager" where
  "sample_manager ks =
     \<lparr>config = \<lparr>keys = ks, lastUpdated = ''2026-11-02T09:00:00.000Z'', version = Some ''1.0.0''\<rparr>,
      fs = sample_disk\<rparr>"

text \<open>The sample manager as a save at \<open>now\<close> leaves it, with the records \<open>ks\<close>.\<close>

definition saved_manager :: "string \<Rightarrow> ApiKeyState list \<Rightarrow> manager" where
  "saved_manager now ks =
     \<lparr>config = \<lparr>keys = ks, lastUpdated = now, version = Some ''1.0.0''\<rparr>,
      fs = \<lparr>contents = Some (''keys='' @ toString (length ks)), readable = True,
            writable = True\<rparr>\<rparr>"

section \<open>Properties\<close>

subsection \<open>Helper lemmas\<close>

declare toString.simps [simp del] setup_loop.simps [simp del] ulp.simps [simp del]

lemma ulp_small: "n < 2 ^ 53 \<Longrightarrow> ulp n = 1"
  by (subst ulp.simps) simp

lemma ulp_bounds: "2 ^ 53 \<le> n \<Longrightarrow> 2 \<le> ulp n \<and> 2 ^ 52 * ulp n \<le> n"
proof (induction n rule: ulp.induct)
  case (1 n)
  have u: "ulp n = 2 * ulp (n div 2)"
    using "1.prems" by (subst ulp.simps) simp
  show ?case
  proof (cases "n div 2 < 2 ^ 53")
    case True
    then have "ulp (n div 2) = 1" by (rule ulp_small)
    with u "1.prems" show ?thesis by simp
  next
    case False
    then have "2 ^ 53 \<le> n div 2" by simp
    moreover have "\<not> n < 2 ^ 53" using "1.prems" by simp
    ultimately have "2 \<le> ulp (n div 2) \<and> 2 ^ 52 * ulp (n div 2) \<le> n div 2"
      using "1.IH" by blast
    moreover have "2 * (n div 2) \<le> n" by simp
    ultimately show ?thesis using u by simp
  qed
qed

lemma round_magnitude_small: "n < 2 ^ 53 \<Longrightarrow> round_magnitude n = n"
  by (simp add: round_magnitude_def ulp_small)

lemma round_magnitude_2_53: "round_magnitude (2 ^ 53) = 2 ^ 53"
proof -
  have "ulp (2 ^ 53) = 2 * ulp (2 ^ 52)"
    by (subst ulp.simps) simp
  also have "ulp (2 ^ 52) = 1" by (rule ulp_small) simp
  finally have "ulp (2 ^ 53) = 2" by simp
  then show ?thesis by (simp add: round_magnitude_def)
qed

lemma round_magnitude_large: "2 ^ 53 \<le> n \<Longrightarrow> 2 ^ 53 \<le> round_magnitude n"
proof -
  assume n: "2 ^ 53 \<le> n"
  define q where "q = ulp n"
  define k where "k = n div q"
  from ulp_bounds [OF n] have q: "2 \<le> q" "2 ^ 52 * q \<le> n" by (simp_all add: q_def)
  have "(2 ^ 52 * q) div q \<le> n div q"
    using q by (intro zdiv_mono1) simp_all
  then have k: "2 ^ 52 \<le> k" using q(1) by (simp add: k_def)
  have "(2 ^ 52 :: int) * 2 \<le> k * q"
    using k q(1) by (intro mult_mono) simp_all
  then have a: "2 ^ 53 \<le> k * q" by simp
  have "k * q \<le> (k + 1) * q"
    using q(1) by (simp add: distrib_right)
  with a have b: "2 ^ 53 \<le> (k + 1) * q" by linarith
  have "round_magnitude n = k * q \<or> round_magnitude n = (k + 1) * q"
    by (simp add: round_magnitude_def Let_def q_def k_def)
  with a b show ?thesis by auto
qed

lemma to_double_exact: "- (2 ^ 53) \<le> x \<Longrightarrow> x \<le> 2 ^ 53 \<Longrightarrow> to_double x = x"
proof -
  assume b: "- (2 ^ 53) \<le> x" "x \<le> 2 ^ 53"
  have r: "round_magnitude n = n" if "n \<le> 2 ^ 53" for n
  proof (cases "n = 2 ^ 53")
    case True
    then show ?thesis by (simp only: round_magnitude_2_53)
  next
    case False
    with that have "n < 2 ^ 53" by simp
    then show ?thesis by (rule round_magnitude_small)
  qed
  show ?thesis
  proof (cases "x < 0")
    case True
    with b have "- x \<le> 2 ^ 53" by simp
    from r [OF this] True show ?thesis by (simp add: to_double_def)
  next
    case False
    with r [OF b(2)] show ?thesis by (simp add: to_double_def)
  qed
qed

lemma number_add_exact:
  "- (2 ^ 53) \<le> a + b \<Longrightarrow> a + b \<le> 2 ^ 53 \<Longrightarrow> number_add a b = a + b"
  by (simp add: number_add_def to_double_exact)

lemma number_sub_exact:
  "- (2 ^ 53) \<le> a - b \<Longrightarrow> a - b \<le> 2 ^ 53 \<Longrightarrow> number_sub a b = a - b"
  by (simp add: number_sub_def to_double_exact)

lemma number_add_large: "2 ^ 53 \<le> a + b \<Longrightarrow> 2 ^ 53 \<le> number_add a b"
proof -
  assume l: "2 ^ 53 \<le> a + b"
  then have "\<not> a + b < 0" by simp
  with round_magnitude_large [OF l] show ?thesis by (simp add: number_add_def to_double_def)
qed

lemma number_add_eval:
  "number_add 57 1 = 58" "number_add 3 1 = 4" "number_add 0 1 = 1" "number_add 1 1 = 2"
  "number_add 9007199254740992 1 = 9007199254740992"
proof -
  show "number_add 57 1 = 58" "number_add 3 1 = 4" "number_add 0 1 = 1" "number_add 1 1 = 2"
    by (simp_all add: number_add_exact)
  have "ulp 9007199254740993 = 2 * ulp 4503599627370496"
    by (subst ulp.simps) simp
  also have "ulp 4503599627370496 = 1" by (rule ulp_small) simp
  finally have "ulp 9007199254740993 = 2" by simp
  then show "number_add 9007199254740992 1 = 9007199254740992"
    by (simp add: number_add_def to_double_def round_magnitude_def)
qed

lemma to_double_even: "2 ^ 53 \<le> n \<Longrightarrow> n < 2 ^ 54 \<Longrightarrow> even n \<Longrightarrow> to_double n = n"
proof -
  assume n: "2 ^ 53 \<le> n" "n < 2 ^ 54" "even n"
  have "ulp n = 2 * ulp (n div 2)"
    using n(1) by (subst ulp.simps) simp
  moreover have "ulp (n div 2) = 1" using n(2) by (intro ulp_small) simp
  ultimately have q: "ulp n = 2" by simp
  from n(3) have "n mod 2 = 0" "n div 2 * 2 = n" by auto
  with n(1) show ?thesis by (simp add: to_double_def round_magnitude_def q)
qed

lemma number_big_eval:
  "number_add 0 9007199254740992 = 9007199254740992"
  "number_add 0 9007199254740994 = 9007199254740994"
  "number_add 9007199254740994 100 = 9007199254741094"
  "number_sub 9007199254740994 9007199254740992 = 2"
  "number_sub 100 1 = 99"
  by (simp_all add: number_add_def number_sub_def to_double_even to_double_exact)

lemma sum_list_nonneg_int: "\<forall>x \<in> set xs. (0::int) \<le> x \<Longrightarrow> 0 \<le> sum_list xs"
  by (induction xs) simp_all

lemma member_le_sum_list_int:
  "\<forall>x \<in> set xs. (0::int) \<le> x \<Longrightarrow> y \<in> set xs \<Longrightarrow> y \<le> sum_list xs"
proof (induction xs)
  case Nil
  then show ?case by simp
next
  case (Cons a xs)
  from Cons.prems(1) have n: "0 \<le> a" "0 \<le> sum_list xs"
    by (simp_all add: sum_list_nonneg_int)
  show ?case
  proof (cases "y = a")
    case True
    with n show ?thesis by simp
  next
    case False
    with Cons have "y \<le> sum_list xs" by simp
    with n show ?thesis by simp
  qed
qed

lemma foldl_number_add:
  "0 \<le> a \<Longrightarrow> \<forall>k \<in> set ks. 0 \<le> f k \<Longrightarrow> a + sum_list (map f ks) \<le> 2 ^ 53 \<Longrightarrow>
     foldl (\<lambda>sum key. number_add sum (f key)) a ks = a + sum_list (map f ks)"
proof (induction ks arbitrary: a)
  case Nil
  then show ?case by simp
next
  case (Cons k ks)
  have r: "0 \<le> sum_list (map f ks)"
    using Cons.prems(2) by (intro sum_list_nonneg_int) simp
  have k: "0 \<le> f k" using Cons.prems(2) by simp
  from Cons.prems(1,3) k r have e: "number_add a (f k) = a + f k"
    by (intro number_add_exact) simp_all
  have "foldl (\<lambda>sum key. number_add sum (f key)) (a + f k) ks = (a + f k) + sum_list (map f ks)"
    using Cons.prems k by (intro Cons.IH) simp_all
  with e show ?case by simp
qed

lemma within_safe_range_rollover:
  "within_safe_range ks \<Longrightarrow> within_safe_range (map (rollover today) ks)"
proof -
  assume w: "within_safe_range ks"
  then have n: "\<forall>k \<in> set ks. 0 \<le> dailyUsage k \<and> 0 \<le> dailyLimit k"
    by (simp add: within_safe_range_def list_all_iff)
  have l: "map dailyLimit (map (rollover today) ks) = map dailyLimit ks"
    by (simp add: rollover_def comp_def)
  have "sum_list (map dailyUsage (map (rollover today) ks)) \<le> sum_list (map dailyUsage ks)"
    unfolding map_map using n by (intro sum_list_mono) (simp add: rollover_def)
  moreover have "\<forall>k \<in> set (map (rollover today) ks). 0 \<le> dailyUsage k \<and> 0 \<le> dailyLimit k"
    using n by (auto simp: rollover_def)
  ultimately show ?thesis
    using w unfolding within_safe_range_def list_all_iff l by simp
qed

lemma saveConfig_Inr:
  "saveConfig rt now m =
     Inr (m\<lparr>config := (config m)\<lparr>lastUpdated := now\<rparr>,
            fs := (if writable (fs m)
                   then (fs m)\<lparr>contents := Some (JSON_stringify rt ((config m)\<lparr>lastUpdated := now\<rparr>))\<rparr>
                   else fs m)\<rparr>)"
  by (simp add: saveConfig_def try_catch_def and_then_def writeFileSync_def Let_def)

lemma reset_loop_keys: "fst (reset_loop today ks h) = map (rollover today) ks"
  by (induction ks arbitrary: h) (simp_all add: rollover_def split_beta Let_def)

lemma reset_loop_flag:
  "snd (reset_loop today ks h) = (h \<or> (\<exists>k \<in> set ks. lastReset k \<noteq> today))"
  by (induction ks arbitrary: h) (auto simp: split_beta Let_def)

lemma reset_eq:
  "resetDailyUsageIfNeeded rt now m =
     (let m1 = m\<lparr>config := (config m)\<lparr>keys := map (rollover (today_of now)) (keys (config m))\<rparr>\<rparr>
      in if (\<exists>k \<in> set (keys (config m)). lastReset k \<noteq> today_of now)
         then saveConfig rt now m1 else Inr m1)"
proof -
  obtain ks h where r: "reset_loop (today_of now) (keys (config m)) False = (ks, h)"
    by (cases "reset_loop (today_of now) (keys (config m)) False")
  have "ks = map (rollover (today_of now)) (keys (config m))"
    using reset_loop_keys [of "today_of now" "keys (config m)" False] r by simp
  moreover have "h = (\<exists>k \<in> set (keys (config m)). lastReset k \<noteq> today_of now)"
    using reset_loop_flag [of "today_of now" "keys (config m)" False] r by simp
  ultimately show ?thesis
    by (simp add: resetDailyUsageIfNeeded_def r Let_def)
qed

lemma reset_Inr:
  "\<exists>m1. resetDailyUsageIfNeeded rt now m = Inr m1
        \<and> keys (config m1) = map (rollover (today_of now)) (keys (config m))
        \<and> version (config m1) = version (config m)"
  by (simp add: reset_eq saveConfig_Inr Let_def)

lemma rollover_fresh: "lastReset (rollover today k) = today"
  by (simp add: rollover_def)

lemma rollover_id: "lastReset k = today \<Longrightarrow> rollover today k = k"
  by (simp add: rollover_def)

lemma rollover_id': "id' (rollover today k) = id' k"
  by (simp add: rollover_def)

lemma map_rollover_id: "\<forall>k \<in> set ks. lastReset k = today \<Longrightarrow> map (rollover today) ks = ks"
  by (induction ks) (simp_all add: rollover_id)

lemma reset_fresh:
  "\<forall>k \<in> set (keys (config m)). lastReset k = today_of now \<Longrightarrow>
     resetDailyUsageIfNeeded rt now m = Inr m"
  by (simp add: reset_eq map_rollover_id Let_def)

lemma first_available_None:
  "(first_available ks = None) = (\<forall>k \<in> set ks. \<not> eligible k)"
  by (induction ks) (auto simp: eligible_def)

lemma first_available_Some:
  "first_available ks = Some k \<Longrightarrow>
     \<exists>i < length ks. ks ! i = k \<and> eligible k \<and> (\<forall>j < i. \<not> eligible (ks ! j))"
proof (induction ks)
  case Nil
  then show ?case by simp
next
  case (Cons a ks)
  show ?case
  proof (cases "eligible a")
    case True
    with Cons.prems have "a = k" by (auto simp: eligible_def split: if_splits)
    with True show ?thesis by (intro exI [of _ 0]) simp
  next
    case False
    with Cons.prems have "first_available ks = Some k" by (auto simp: eligible_def split: if_splits)
    from Cons.IH [OF this] obtain i where
      i: "i < length ks" "ks ! i = k" "eligible k" "\<forall>j < i. \<not> eligible (ks ! j)" by blast
    have "\<forall>j < Suc i. \<not> eligible ((a # ks) ! j)"
      using False i(4) by (auto simp: less_Suc_eq_0_disj)
    with i show ?thesis by (intro exI [of _ "Suc i"]) simp
  qed
qed

lemma first_available_mem: "first_available ks = Some k \<Longrightarrow> k \<in> set ks \<and> eligible k"
  using first_available_Some by fastforce

lemma find_ref_None: "(find_ref P xs = None) = (\<forall>x \<in> set xs. \<not> P x)"
  by (induction xs) auto

lemma find_ref_Some:
  "(find_ref P xs = Some i) = (i < length xs \<and> P (xs ! i) \<and> (\<forall>j < i. \<not> P (xs ! j)))"
proof (induction xs arbitrary: i)
  case Nil
  then show ?case by simp
next
  case (Cons a xs)
  show ?case
  proof (cases "P a")
    case True
    then show ?thesis by (cases i) auto
  next
    case False
    show ?thesis
    proof (cases i)
      case 0
      with False show ?thesis by auto
    next
      case (Suc n)
      have "(\<forall>j < Suc n. \<not> P ((a # xs) ! j)) = (\<forall>j < n. \<not> P (xs ! j))"
        using False by (auto simp: less_Suc_eq_0_disj)
      with False Suc Cons.IH [of n] show ?thesis by auto
    qed
  qed
qed

lemmas sample_defs =
  sample_manager_def sample_runtime_def sample_disk_def stale_key_def spent_key_def
  fresh_key_def idle_key_def full_key_def small_key_def pending_key_def twin_key_def
  big_key_def unit_key_def spent_twin_def saved_manager_def noon_def morning_def evening_def today_of_def

lemma trim_eval: "trim '' cx-one '' = ''cx-one''" "trim '' '' = []" "trim ''AIza-one'' = ''AIza-one''"
  "trim ''AIza-two'' = ''AIza-two''"
  by (simp_all add: trim_def isWhiteSpace_def)

lemma toString_eval:
  "toString 0 = ''0''" "toString 1 = ''1''" "toString 2 = ''2''" "toString 3 = ''3''"
  "toString (Suc 0) = ''1''" "toString (Suc (Suc 0)) = ''2''"
  "toString (Suc (Suc (Suc 0))) = ''3''"
  by (simp_all add: toString.simps digit_def)

subsection \<open>Selection\<close>

text \<open>
  C1. For every state of the store, \<^verbatim>\<open>getAvailableKey\<close> (the spec's \<open>selectEligible\<close>)
  returns normally; the state it leaves is the one \<^verbatim>\<open>resetDailyUsageIfNeeded\<close> leaves,
  in which the day-rollover reset has been applied to every record; its value is the first
  record, in store order, of that state that is active and under its limit, and
  \<^verbatim>\<open>null\<close> exactly when no record is; on the empty store it is \<^verbatim>\<open>null\<close>.
\<close>

theorem getAvailableKey_first_eligible:
  "\<exists>r m1. getAvailableKey rt now m = Inr (r, m1)
     \<and> resetDailyUsageIfNeeded rt now m = Inr m1
     \<and> keys (config m1) = map (rollover (today_of now)) (keys (config m))
     \<and> (case r of
          None \<Rightarrow> \<forall>k \<in> set (keys (config m1)). \<not> eligible k
        | Some k \<Rightarrow>
            \<exists>i < length (keys (config m1)).
               keys (config m1) ! i = k \<and> eligible k
               \<and> (\<forall>j < i. \<not> eligible (keys (config m1) ! j)))
     \<and> (keys (config m) = [] \<longrightarrow> r = None)"
proof -
  obtain m1 where m1: "resetDailyUsageIfNeeded rt now m = Inr m1"
    and ks: "keys (config m1) = map (rollover (today_of now)) (keys (config m))"
    using reset_Inr by blast
  let ?r = "first_available (keys (config m1))"
  have g: "getAvailableKey rt now m = Inr (?r, m1)"
    by (simp add: getAvailableKey_def m1 and_then_def)
  have c: "case ?r of
          None \<Rightarrow> \<forall>k \<in> set (keys (config m1)). \<not> eligible k
        | Some k \<Rightarrow>
            \<exists>i < length (keys (config m1)).
               keys (config m1) ! i = k \<and> eligible k
               \<and> (\<forall>j < i. \<not> eligible (keys (config m1) ! j))"
  proof (cases ?r)
    case None
    then show ?thesis using first_available_None [of "keys (config m1)"] by simp
  next
    case (Some k)
    then show ?thesis using first_available_Some [OF Some] by simp
  qed
  have e: "keys (config m) = [] \<longrightarrow> ?r = None"
    using ks by auto
  from g m1 ks c e show ?thesis by blast
qed

theorem getAvailableKey_first_eligible_witness:
  "(\<exists>m1. getAvailableKey sample_runtime noon (sample_manager [spent_key, stale_key, fresh_key])
           = Inr (Some (stale_key\<lparr>dailyUsage := 0, lastReset := ''2026-11-03'', isActive := True\<rparr>), m1))
   \<and> (\<exists>m1. getAvailableKey sample_runtime noon (sample_manager []) = Inr (None, m1))"
  using getAvailableKey_first_eligible [of sample_runtime noon "sample_manager []"]
  by (auto simp: getAvailableKey_def reset_eq saveConfig_Inr and_then_def Let_def
        sample_manager_def spent_key_def stale_key_def fresh_key_def noon_def today_of_def
        rollover_def)

subsection \<open>Usage counting and deactivation\<close>

text \<open>
  C8, as the code has it. For every state and every id that no record carries,
  \<^verbatim>\<open>incrementUsage\<close> (the spec's \<open>recordUsage\<close>) and \<^verbatim>\<open>disableKey\<close> (\<open>deactivate\<close>) return
  normally and leave the whole state, records, timestamp, version and file, as it was.
  When a record carries the id, with \<open>i\<close> the first position that does, both return
  normally; \<^verbatim>\<open>disableKey\<close> leaves the list of records equal to the old one with the record
  at \<open>i\<close> having \<^verbatim>\<open>isActive\<close> false; \<^verbatim>\<open>incrementUsage\<close> leaves it equal to the old one with
  the record at \<open>i\<close> having the \<^verbatim>\<open>dailyUsage\<close> that \<^verbatim>\<open>++\<close> computes on a double, which is
  one more when the old usage is at least \<open>-2^53\<close> and below \<open>2^53\<close>. No other record and
  no other field of that record changes.
\<close>

theorem incrementUsage_disableKey_by_id:
  "((\<forall>k \<in> set (keys (config m)). id' k \<noteq> keyId) \<longrightarrow>
      incrementUsage rt now keyId m = Inr m \<and> disableKey rt now keyId reason m = Inr m)
   \<and> (\<forall>i. i < length (keys (config m)) \<and> id' (keys (config m) ! i) = keyId
            \<and> (\<forall>j < i. id' (keys (config m) ! j) \<noteq> keyId) \<longrightarrow>
        (\<exists>m1. incrementUsage rt now keyId m = Inr m1
           \<and> keys (config m1) =
               (keys (config m))
                 [i := (keys (config m) ! i)
                         \<lparr>dailyUsage := number_add (dailyUsage (keys (config m) ! i)) 1\<rparr>]
           \<and> (- (2 ^ 53) \<le> dailyUsage (keys (config m) ! i)
                \<and> dailyUsage (keys (config m) ! i) < 2 ^ 53 \<longrightarrow>
              keys (config m1) =
                (keys (config m))
                  [i := (keys (config m) ! i)\<lparr>dailyUsage := dailyUsage (keys (config m) ! i) + 1\<rparr>])
           \<and> version (config m1) = version (config m))
        \<and> (\<exists>m2. disableKey rt now keyId reason m = Inr m2
           \<and> keys (config m2) =
               (keys (config m))[i := (keys (config m) ! i)\<lparr>isActive := False\<rparr>]
           \<and> version (config m2) = version (config m)))"
proof (intro conjI impI allI)
  assume "\<forall>k \<in> set (keys (config m)). id' k \<noteq> keyId"
  then have "find_ref (\<lambda>k. id' k = keyId) (keys (config m)) = None"
    by (simp add: find_ref_None)
  then show "incrementUsage rt now keyId m = Inr m" "disableKey rt now keyId reason m = Inr m"
    by (simp_all add: incrementUsage_def disableKey_def)
next
  fix i
  assume "i < length (keys (config m)) \<and> id' (keys (config m) ! i) = keyId
            \<and> (\<forall>j < i. id' (keys (config m) ! j) \<noteq> keyId)"
  then have f: "find_ref (\<lambda>k. id' k = keyId) (keys (config m)) = Some i"
    by (simp add: find_ref_Some)
  let ?d = "dailyUsage (keys (config m) ! i)"
  have e: "- (2 ^ 53) \<le> ?d \<and> ?d < 2 ^ 53 \<longrightarrow> number_add ?d 1 = ?d + 1"
    by (auto intro: number_add_exact)
  show "\<exists>m1. incrementUsage rt now keyId m = Inr m1
           \<and> keys (config m1) =
               (keys (config m))
                 [i := (keys (config m) ! i)\<lparr>dailyUsage := number_add ?d 1\<rparr>]
           \<and> (- (2 ^ 53) \<le> ?d \<and> ?d < 2 ^ 53 \<longrightarrow>
              keys (config m1) =
                (keys (config m))[i := (keys (config m) ! i)\<lparr>dailyUsage := ?d + 1\<rparr>])
           \<and> version (config m1) = version (config m)"
    using e by (simp add: incrementUsage_def f saveConfig_Inr Let_def)
  show "\<exists>m2. disableKey rt now keyId reason m = Inr m2
           \<and> keys (config m2) =
               (keys (config m))[i := (keys (config m) ! i)\<lparr>isActive := False\<rparr>]
           \<and> version (config m2) = version (config m)"
    by (simp add: disableKey_def f saveConfig_Inr Let_def)
qed

theorem incrementUsage_disableKey_by_id_witness:
  "incrementUsage sample_runtime noon ''key_9'' (sample_manager [stale_key, fresh_key])
     = Inr (sample_manager [stale_key, fresh_key])
   \<and> (\<exists>m1. incrementUsage sample_runtime noon ''key_3'' (sample_manager [stale_key, fresh_key])
              = Inr m1
         \<and> keys (config m1) = [stale_key, fresh_key\<lparr>dailyUsage := 4\<rparr>])
   \<and> (\<exists>m2. disableKey sample_runtime noon ''key_3'' ''403'' (sample_manager [stale_key, fresh_key])
              = Inr m2
         \<and> keys (config m2) = [stale_key, fresh_key\<lparr>isActive := False\<rparr>])"
proof -
  let ?m = "sample_manager [stale_key, fresh_key]"
  note t = incrementUsage_disableKey_by_id [of ?m _ sample_runtime noon "''403''"]
  have a: "\<forall>k \<in> set (keys (config ?m)). id' k \<noteq> ''key_9''"
    by (simp add: sample_defs)
  have b: "1 < length (keys (config ?m)) \<and> id' (keys (config ?m) ! 1) = ''key_3''
            \<and> (\<forall>j < 1. id' (keys (config ?m) ! j) \<noteq> ''key_3'')"
    by (simp add: sample_defs)
  have ks: "keys (config ?m) = [stale_key, fresh_key]" by (simp add: sample_manager_def)
  have c: "- (2 ^ 53) \<le> dailyUsage (keys (config ?m) ! 1)
             \<and> dailyUsage (keys (config ?m) ! 1) < 2 ^ 53"
    unfolding ks by (simp add: fresh_key_def)
  from t [of "''key_9''"] a
  have 1: "incrementUsage sample_runtime noon ''key_9'' ?m = Inr ?m" by blast
  from t [of "''key_3''", THEN conjunct2, rule_format, OF b]
  obtain m1 m2 where m1: "incrementUsage sample_runtime noon ''key_3'' ?m = Inr m1"
    "- (2 ^ 53) \<le> dailyUsage (keys (config ?m) ! 1)
       \<and> dailyUsage (keys (config ?m) ! 1) < 2 ^ 53 \<longrightarrow>
     keys (config m1) =
       (keys (config ?m))
         [1 := (keys (config ?m) ! 1)\<lparr>dailyUsage := dailyUsage (keys (config ?m) ! 1) + 1\<rparr>]"
    and m2: "disableKey sample_runtime noon ''key_3'' ''403'' ?m = Inr m2"
    "keys (config m2) = (keys (config ?m))[1 := (keys (config ?m) ! 1)\<lparr>isActive := False\<rparr>]"
    by blast
  from m1(2) c have "keys (config m1) =
       (keys (config ?m))
         [1 := (keys (config ?m) ! 1)\<lparr>dailyUsage := dailyUsage (keys (config ?m) ! 1) + 1\<rparr>]"
    by blast
  then have 2: "keys (config m1) = [stale_key, fresh_key\<lparr>dailyUsage := 4\<rparr>]"
    unfolding ks by (simp add: fresh_key_def)
  from m2(2) have 3: "keys (config m2) = [stale_key, fresh_key\<lparr>isActive := False\<rparr>]"
    unfolding ks by simp
  from 1 m1(1) 2 m2(1) 3 show ?thesis by blast
qed

text \<open>
  C8 as stated fails at the end of the exact range of a double: on a record with
  \<^verbatim>\<open>dailyUsage\<close> \<open>2^53 = 9007199254740992\<close>, \<^verbatim>\<open>incrementUsage\<close> leaves \<^verbatim>\<open>dailyUsage\<close> at
  \<open>2^53\<close>.
\<close>

theorem incrementUsage_at_2_53:
  "incrementUsage sample_runtime noon ''key_1'' (sample_manager [big_key])
     = Inr \<lparr>config =
             \<lparr>keys =
                [\<lparr>id' = ''key_1'', apiKey = ''AIza-one'', searchEngineId = ''cx-one'',
                  dailyUsage = 9007199254740992, dailyLimit = 9007199254740994,
                  lastReset = ''2026-11-03'', isActive = True\<rparr>],
              lastUpdated = noon, version = Some ''1.0.0''\<rparr>,
            fs = \<lparr>contents = Some ''keys=1'', readable = True, writable = True\<rparr>\<rparr>
   \<and> dailyUsage big_key = 9007199254740992"
  by (simp add: incrementUsage_def saveConfig_Inr Let_def sample_defs toString_eval
        number_add_eval)

subsection \<open>The quota snapshot\<close>

text \<open>
  C6, as the code has it. For every state, \<^verbatim>\<open>getQuotaStatus\<close> (the spec's
  \<open>quotaSnapshot\<close>) returns normally; the state it leaves is the one the day-rollover reset
  leaves, and nothing more is changed; \<^verbatim>\<open>keysStatus\<close> has one entry per record of that
  state, in store order, with the record's id, usage, limit, activity flag and
  \<open>remaining\<close> the difference of limit and usage as a double computes it. When no counter
  of the store is negative and neither the usages nor the limits add up to more than
  \<open>2^53\<close>, \<^verbatim>\<open>totalUsed\<close> is the sum of \<^verbatim>\<open>dailyUsage\<close>, \<^verbatim>\<open>totalLimit\<close> the sum of
  \<^verbatim>\<open>dailyLimit\<close> over the records of that state, and every \<open>remaining\<close> is
  \<open>limit - used\<close>.
\<close>

theorem getQuotaStatus_totals:
  "\<exists>q m1. getQuotaStatus rt now m = Inr (q, m1)
     \<and> resetDailyUsageIfNeeded rt now m = Inr m1
     \<and> keys (config m1) = map (rollover (today_of now)) (keys (config m))
     \<and> length (keysStatus q) = length (keys (config m1))
     \<and> (\<forall>i < length (keys (config m1)).
           keysStatus q ! i =
             \<lparr>key_id = id' (keys (config m1) ! i),
              used = dailyUsage (keys (config m1) ! i),
              limit = dailyLimit (keys (config m1) ! i),
              remaining =
                number_sub (dailyLimit (keys (config m1) ! i)) (dailyUsage (keys (config m1) ! i)),
              active = isActive (keys (config m1) ! i)\<rparr>)
     \<and> (within_safe_range (keys (config m)) \<longrightarrow>
          totalUsed q = sum_list (map dailyUsage (keys (config m1)))
          \<and> totalLimit q = sum_list (map dailyLimit (keys (config m1)))
          \<and> (\<forall>i < length (keys (config m1)).
                remaining (keysStatus q ! i) =
                  dailyLimit (keys (config m1) ! i) - dailyUsage (keys (config m1) ! i)))"
proof -
  obtain m1 where m1: "resetDailyUsageIfNeeded rt now m = Inr m1"
    and ks: "keys (config m1) = map (rollover (today_of now)) (keys (config m))"
    using reset_Inr by blast
  let ?ks = "keys (config m1)"
  let ?q = "\<lparr>totalUsed = foldl (\<lambda>sum key. number_add sum (dailyUsage key)) 0 ?ks,
            totalLimit = foldl (\<lambda>sum key. number_add sum (dailyLimit key)) 0 ?ks,
            keysStatus =
              map (\<lambda>key. \<lparr>key_id = id' key, used = dailyUsage key, limit = dailyLimit key,
                            remaining = number_sub (dailyLimit key) (dailyUsage key),
                            active = isActive key\<rparr>) ?ks\<rparr>"
  have g: "getQuotaStatus rt now m = Inr (?q, m1)"
    by (simp add: getQuotaStatus_def m1 and_then_def Let_def)
  have 1: "length (keysStatus ?q) = length ?ks" by simp
  have 2: "\<forall>i < length ?ks.
           keysStatus ?q ! i =
             \<lparr>key_id = id' (?ks ! i), used = dailyUsage (?ks ! i), limit = dailyLimit (?ks ! i),
              remaining = number_sub (dailyLimit (?ks ! i)) (dailyUsage (?ks ! i)),
              active = isActive (?ks ! i)\<rparr>"
    by simp
  have 3: "totalUsed ?q = sum_list (map dailyUsage ?ks)
          \<and> totalLimit ?q = sum_list (map dailyLimit ?ks)
          \<and> (\<forall>i < length ?ks.
                remaining (keysStatus ?q ! i) = dailyLimit (?ks ! i) - dailyUsage (?ks ! i))"
    if w: "within_safe_range (keys (config m))"
  proof -
    from w have w1: "within_safe_range ?ks"
      unfolding ks by (rule within_safe_range_rollover)
    then have n: "\<forall>k \<in> set ?ks. 0 \<le> dailyUsage k" "\<forall>k \<in> set ?ks. 0 \<le> dailyLimit k"
      and su: "sum_list (map dailyUsage ?ks) \<le> 2 ^ 53"
      and sl: "sum_list (map dailyLimit ?ks) \<le> 2 ^ 53"
      by (simp_all add: within_safe_range_def list_all_iff)
    have a: "totalUsed ?q = sum_list (map dailyUsage ?ks)"
      using foldl_number_add [of 0 ?ks dailyUsage] n(1) su by simp
    have b: "totalLimit ?q = sum_list (map dailyLimit ?ks)"
      using foldl_number_add [of 0 ?ks dailyLimit] n(2) sl by simp
    have c: "remaining (keysStatus ?q ! i) = dailyLimit (?ks ! i) - dailyUsage (?ks ! i)"
      if i: "i < length ?ks" for i
    proof -
      from i have mem: "?ks ! i \<in> set ?ks" by simp
      have "dailyUsage (?ks ! i) \<le> sum_list (map dailyUsage ?ks)"
        using n(1) mem by (intro member_le_sum_list_int) auto
      with su have u: "dailyUsage (?ks ! i) \<le> 2 ^ 53" by simp
      have "dailyLimit (?ks ! i) \<le> sum_list (map dailyLimit ?ks)"
        using n(2) mem by (intro member_le_sum_list_int) auto
      with sl have l: "dailyLimit (?ks ! i) \<le> 2 ^ 53" by simp
      from n mem have z: "0 \<le> dailyUsage (?ks ! i)" "0 \<le> dailyLimit (?ks ! i)" by simp_all
      from u l z have "number_sub (dailyLimit (?ks ! i)) (dailyUsage (?ks ! i))
          = dailyLimit (?ks ! i) - dailyUsage (?ks ! i)"
        by (intro number_sub_exact) simp_all
      with i show ?thesis by simp
    qed
    from a b c show ?thesis by blast
  qed
  from g m1 ks 1 2 3 show ?thesis by blast
qed

theorem getQuotaStatus_totals_witness:
  "within_safe_range [spent_key, stale_key, fresh_key]
   \<and> (\<exists>m1. getQuotaStatus sample_runtime noon (sample_manager [spent_key, stale_key, fresh_key])
     = Inr (\<lparr>totalUsed = 103, totalLimit = 300,
             keysStatus =
               [\<lparr>key_id = ''key_2'', used = 100, limit = 100, remaining = 0, active = True\<rparr>,
                \<lparr>key_id = ''key_1'', used = 0, limit = 100, remaining = 100, active = True\<rparr>,
                \<lparr>key_id = ''key_3'', used = 3, limit = 100, remaining = 97, active = True\<rparr>]\<rparr>,
            m1))"
proof -
  let ?m = "sample_manager [spent_key, stale_key, fresh_key]"
  have k: "keys (config ?m) = [spent_key, stale_key, fresh_key]"
    by (simp add: sample_manager_def)
  have w: "within_safe_range [spent_key, stale_key, fresh_key]"
    by (simp add: within_safe_range_def spent_key_def stale_key_def fresh_key_def)
  from getQuotaStatus_totals [of sample_runtime noon ?m]
  obtain q m1 where g: "getQuotaStatus sample_runtime noon ?m = Inr (q, m1)"
    and ks: "keys (config m1) = map (rollover (today_of noon)) (keys (config ?m))"
    and n: "length (keysStatus q) = length (keys (config m1))"
    and e: "\<forall>i < length (keys (config m1)).
           keysStatus q ! i =
             \<lparr>key_id = id' (keys (config m1) ! i),
              used = dailyUsage (keys (config m1) ! i),
              limit = dailyLimit (keys (config m1) ! i),
              remaining =
                number_sub (dailyLimit (keys (config m1) ! i)) (dailyUsage (keys (config m1) ! i)),
              active = isActive (keys (config m1) ! i)\<rparr>"
    and s: "within_safe_range (keys (config ?m)) \<longrightarrow>
          totalUsed q = sum_list (map dailyUsage (keys (config m1)))
          \<and> totalLimit q = sum_list (map dailyLimit (keys (config m1)))
          \<and> (\<forall>i < length (keys (config m1)).
                remaining (keysStatus q ! i) =
                  dailyLimit (keys (config m1) ! i) - dailyUsage (keys (config m1) ! i))"
    by blast
  have ks': "keys (config m1) =
      [spent_key, stale_key\<lparr>dailyUsage := 0, lastReset := ''2026-11-03'', isActive := True\<rparr>,
       fresh_key]"
    unfolding ks k by (simp add: sample_defs rollover_def)
  have "keysStatus q =
      [\<lparr>key_id = ''key_2'', used = 100, limit = 100, remaining = 0, active = True\<rparr>,
       \<lparr>key_id = ''key_1'', used = 0, limit = 100, remaining = 100, active = True\<rparr>,
       \<lparr>key_id = ''key_3'', used = 3, limit = 100, remaining = 97, active = True\<rparr>]"
    using n e unfolding ks'
    by (intro nth_equalityI)
      (auto simp: less_Suc_eq_0_disj spent_key_def stale_key_def fresh_key_def number_sub_exact)
  moreover from s w have "totalUsed q = sum_list (map dailyUsage (keys (config m1)))"
    "totalLimit q = sum_list (map dailyLimit (keys (config m1)))"
    unfolding k by blast+
  then have "totalUsed q = 103" "totalLimit q = 300"
    unfolding ks' by (simp_all add: spent_key_def stale_key_def fresh_key_def)
  ultimately have "q = \<lparr>totalUsed = 103, totalLimit = 300,
             keysStatus =
               [\<lparr>key_id = ''key_2'', used = 100, limit = 100, remaining = 0, active = True\<rparr>,
                \<lparr>key_id = ''key_1'', used = 0, limit = 100, remaining = 100, active = True\<rparr>,
                \<lparr>key_id = ''key_3'', used = 3, limit = 100, remaining = 97, active = True\<rparr>]\<rparr>"
    by simp
  with g w show ?thesis by blast
qed

text \<open>
  C6 as stated fails where a sum leaves the exact range of a double: with usages \<open>2^53\<close>
  and 1 the code returns \<^verbatim>\<open>totalUsed\<close> \<open>2^53 = 9007199254740992\<close>, the sum is
  \<open>9007199254740993\<close>.
\<close>

theorem getQuotaStatus_rounds:
  "getQuotaStatus sample_runtime noon (sample_manager [big_key, unit_key])
     = Inr (\<lparr>totalUsed = 9007199254740992, totalLimit = 9007199254741094,
             keysStatus =
               [\<lparr>key_id = ''key_1'', used = 9007199254740992, limit = 9007199254740994,
                 remaining = 2, active = True\<rparr>,
                \<lparr>key_id = ''key_2'', used = 1, limit = 100, remaining = 99, active = True\<rparr>]\<rparr>,
            sample_manager [big_key, unit_key])
   \<and> sum_list (map dailyUsage [big_key, unit_key]) = 9007199254740993"
  by (simp add: getQuotaStatus_def reset_eq and_then_def Let_def rollover_def sample_defs
        number_add_eval number_big_eval)

text \<open>
  C9. Two calls of \<^verbatim>\<open>getQuotaStatus\<close> in succession, at instants of the same calendar day,
  return the same value, and the second leaves the state the first left.
\<close>

theorem getQuotaStatus_twice:
  "today_of now2 = today_of now1 \<Longrightarrow>
     \<exists>q m1. getQuotaStatus rt now1 m = Inr (q, m1) \<and> getQuotaStatus rt now2 m1 = Inr (q, m1)"
proof -
  assume d: "today_of now2 = today_of now1"
  obtain m1 where m1: "resetDailyUsageIfNeeded rt now1 m = Inr m1"
    and ks: "keys (config m1) = map (rollover (today_of now1)) (keys (config m))"
    using reset_Inr by blast
  have "\<forall>k \<in> set (keys (config m1)). lastReset k = today_of now2"
    by (simp add: ks d rollover_fresh)
  then have r2: "resetDailyUsageIfNeeded rt now2 m1 = Inr m1"
    by (rule reset_fresh)
  show ?thesis
    by (simp add: getQuotaStatus_def m1 r2 and_then_def)
qed

theorem getQuotaStatus_twice_witness:
  "today_of noon = today_of morning
   \<and> (\<exists>q m1. getQuotaStatus sample_runtime morning (sample_manager [stale_key, fresh_key])
                 = Inr (q, m1)
            \<and> getQuotaStatus sample_runtime noon m1 = Inr (q, m1))"
proof -
  have d: "today_of noon = today_of morning" by (simp add: sample_defs)
  from d getQuotaStatus_twice [OF d] show ?thesis by blast
qed

subsection \<open>Bulk replacement\<close>

lemma trim_clean: "clean s \<Longrightarrow> trim s = s"
proof -
  assume c: "clean s"
  then have 1: "dropWhile isWhiteSpace s = s"
    by (cases s) (simp_all add: clean_def)
  from c have "rev s \<noteq> []" "\<not> isWhiteSpace (hd (rev s))"
    by (simp_all add: clean_def hd_rev)
  then have "dropWhile isWhiteSpace (rev s) = rev s"
    by (cases "rev s") simp_all
  with 1 show ?thesis by (simp add: trim_def)
qed

lemma searchEngineId_for_eq:
  "searchEngineId_for sids i =
     (if i < length sids \<and> trim (sids ! i) \<noteq> [] then trim (sids ! i)
      else if sids \<noteq> [] \<and> trim (sids ! 0) \<noteq> [] then trim (sids ! 0) else [])"
  by (auto simp: searchEngineId_for_def at_index_def falsy_def Let_def)

lemma searchEngineId_for_clean:
  "\<forall>s \<in> set sids. clean s \<Longrightarrow> searchEngineId_for sids i = spec_scope_id sids i"
proof -
  assume a: "\<forall>s \<in> set sids. clean s"
  have n: "\<And>j. j < length sids \<Longrightarrow> trim (sids ! j) = sids ! j \<and> sids ! j \<noteq> []"
    using a by (auto simp: trim_clean clean_def)
  show ?thesis
  proof (cases "i < length sids")
    case True
    with n [of i] show ?thesis by (simp add: searchEngineId_for_eq spec_scope_id_def)
  next
    case False
    show ?thesis
    proof (cases sids)
      case Nil
      then show ?thesis by (simp add: searchEngineId_for_eq spec_scope_id_def)
    next
      case (Cons a list)
      with n [of 0] False show ?thesis by (simp add: searchEngineId_for_eq spec_scope_id_def)
    qed
  qed
qed

lemma setup_loop_eq:
  "setup_loop now apiKeys sids i ks = ks @ map (new_key now apiKeys sids) [i ..< length apiKeys]"
proof (induction now apiKeys sids i ks rule: setup_loop.induct)
  case (1 now apiKeys sids i ks)
  show ?case
  proof (cases "i < length apiKeys")
    case True
    have "setup_loop now apiKeys sids i ks =
          setup_loop now apiKeys sids (i + 1) (ks @ [new_key now apiKeys sids i])"
      using True by (subst setup_loop.simps) (simp add: new_key_def)
    also have "\<dots> = (ks @ [new_key now apiKeys sids i])
                   @ map (new_key now apiKeys sids) [i + 1 ..< length apiKeys]"
      using "1.IH" [OF True] by (simp add: new_key_def)
    also have "\<dots> = ks @ map (new_key now apiKeys sids) [i ..< length apiKeys]"
      using True by (simp add: upt_conv_Cons)
    finally show ?thesis .
  next
    case False
    then show ?thesis by (subst setup_loop.simps) simp
  qed
qed

lemma setupKeys_keys:
  "\<exists>m1. setupKeys rt now apiKeys sids m = Inr m1
     \<and> keys (config m1) = map (new_key now apiKeys sids) [0 ..< length apiKeys]"
  by (simp add: setupKeys_def Let_def saveConfig_Inr setup_loop_eq)

text \<open>
  C5, as the code has it. \<^verbatim>\<open>setupKeys\<close> (the spec's \<open>bulkReplace\<close>) with \<open>k\<close> secrets returns
  normally, drops every record there was and leaves exactly \<open>k\<close> records in input order.
  Record \<open>i\<close> (from 0) has the id \<open>key_\<close> followed by the decimal text of \<open>i + 1\<close>, the
  trimmed secret \<open>i\<close>, usage 0, limit 100, \<^verbatim>\<open>lastReset\<close> today and \<^verbatim>\<open>isActive\<close> true. Its
  scope id is the trimmed scope id at position \<open>i\<close> when that position exists and is not
  blank; otherwise the trimmed first scope id when there is one and it is not blank;
  otherwise the empty string. When every scope id is non-empty and has no white space
  at either end, this is the scope id of the spec's wording.
\<close>

theorem setupKeys_records:
  "\<exists>m1. setupKeys rt now apiKeys searchEngineIds m = Inr m1
     \<and> length (keys (config m1)) = length apiKeys
     \<and> (\<forall>i < length apiKeys.
          keys (config m1) ! i =
            \<lparr>id' = ''key_'' @ toString (i + 1),
             apiKey = trim (apiKeys ! i),
             searchEngineId =
               (if i < length searchEngineIds \<and> trim (searchEngineIds ! i) \<noteq> []
                then trim (searchEngineIds ! i)
                else if searchEngineIds \<noteq> [] \<and> trim (searchEngineIds ! 0) \<noteq> []
                then trim (searchEngineIds ! 0) else []),
             dailyUsage = 0, dailyLimit = 100, lastReset = today_of now, isActive = True\<rparr>)
     \<and> ((\<forall>s \<in> set searchEngineIds. clean s) \<longrightarrow>
          map searchEngineId (keys (config m1))
            = map (spec_scope_id searchEngineIds) [0 ..< length apiKeys])"
proof -
  let ?ks = "map (new_key now apiKeys searchEngineIds) [0 ..< length apiKeys]"
  let ?m1 = "m\<lparr>config := (config m)\<lparr>keys := ?ks, lastUpdated := now\<rparr>,
               fs := (if writable (fs m)
                      then (fs m)\<lparr>contents := Some (JSON_stringify rt
                              ((config m)\<lparr>keys := ?ks, lastUpdated := now\<rparr>))\<rparr>
                      else fs m)\<rparr>"
  have s: "setupKeys rt now apiKeys searchEngineIds m = Inr ?m1"
    by (simp add: setupKeys_def Let_def saveConfig_Inr setup_loop_eq)
  have k: "keys (config ?m1) = ?ks" by simp
  have 1: "length (keys (config ?m1)) = length apiKeys" by simp
  have 2: "\<forall>i < length apiKeys.
          keys (config ?m1) ! i =
            \<lparr>id' = ''key_'' @ toString (i + 1),
             apiKey = trim (apiKeys ! i),
             searchEngineId =
               (if i < length searchEngineIds \<and> trim (searchEngineIds ! i) \<noteq> []
                then trim (searchEngineIds ! i)
                else if searchEngineIds \<noteq> [] \<and> trim (searchEngineIds ! 0) \<noteq> []
                then trim (searchEngineIds ! 0) else []),
             dailyUsage = 0, dailyLimit = 100, lastReset = today_of now, isActive = True\<rparr>"
    unfolding k by (simp add: new_key_def searchEngineId_for_eq)
  have 3: "(\<forall>s \<in> set searchEngineIds. clean s) \<longrightarrow>
          map searchEngineId (keys (config ?m1))
            = map (spec_scope_id searchEngineIds) [0 ..< length apiKeys]"
    unfolding k by (simp add: new_key_def searchEngineId_for_clean)
  from s 1 2 3 show ?thesis by blast
qed

theorem setupKeys_records_witness:
  "clean ''cx-one''
   \<and> (\<exists>m1. setupKeys sample_runtime noon [''AIza-one'', ''AIza-two''] [''cx-one'']
              (sample_manager [spent_key]) = Inr m1
         \<and> length (keys (config m1)) = 2
         \<and> keys (config m1) ! 1 =
             \<lparr>id' = ''key_2'', apiKey = ''AIza-two'', searchEngineId = ''cx-one'',
              dailyUsage = 0, dailyLimit = 100, lastReset = ''2026-11-03'', isActive = True\<rparr>
         \<and> map searchEngineId (keys (config m1)) = [''cx-one'', ''cx-one''])"
proof -
  have c: "clean ''cx-one''" by (simp add: clean_def isWhiteSpace_def)
  then have c': "\<forall>s \<in> set [''cx-one'']. clean s" by simp
  have t: "trim ''cx-one'' = ''cx-one''" using c by (rule trim_clean)
  have u: "[0 ..< length [''AIza-one'', ''AIza-two'']] = [0, 1]"
    by (simp add: upt_conv_Cons)
  from setupKeys_records [of sample_runtime noon "[''AIza-one'', ''AIza-two'']" "[''cx-one'']"
      "sample_manager [spent_key]"]
  obtain m1 where s: "setupKeys sample_runtime noon [''AIza-one'', ''AIza-two''] [''cx-one'']
              (sample_manager [spent_key]) = Inr m1"
    and n: "length (keys (config m1)) = length [''AIza-one'', ''AIza-two'']"
    and e: "\<forall>i < length [''AIza-one'', ''AIza-two''].
          keys (config m1) ! i =
            \<lparr>id' = ''key_'' @ toString (i + 1),
             apiKey = trim ([''AIza-one'', ''AIza-two''] ! i),
             searchEngineId =
               (if i < length [''cx-one''] \<and> trim ([''cx-one''] ! i) \<noteq> []
                then trim ([''cx-one''] ! i)
                else if [''cx-one''] \<noteq> [] \<and> trim ([''cx-one''] ! 0) \<noteq> []
                then trim ([''cx-one''] ! 0) else []),
             dailyUsage = 0, dailyLimit = 100, lastReset = today_of noon, isActive = True\<rparr>"
    and g: "(\<forall>s \<in> set [''cx-one'']. clean s) \<longrightarrow>
          map searchEngineId (keys (config m1))
            = map (spec_scope_id [''cx-one'']) [0 ..< length [''AIza-one'', ''AIza-two'']]"
    by blast
  from e have 1: "keys (config m1) ! 1 =
             \<lparr>id' = ''key_2'', apiKey = ''AIza-two'', searchEngineId = ''cx-one'',
              dailyUsage = 0, dailyLimit = 100, lastReset = ''2026-11-03'', isActive = True\<rparr>"
    by (simp add: t trim_eval toString_eval sample_defs)
  from g c' have 2: "map searchEngineId (keys (config m1)) = [''cx-one'', ''cx-one'']"
    unfolding u by (simp add: spec_scope_id_def)
  from c s n 1 2 show ?thesis by simp
qed

text \<open>
  C5 as stated fails on scope ids with white space: from the scope ids \<open>" cx-one "\<close> and
  \<open>" "\<close> both records get \<open>"cx-one"\<close>, where the spec's wording gives the first the
  untrimmed \<open>" cx-one "\<close> and the second, whose position exists, \<open>" "\<close>.
\<close>

theorem setupKeys_blank_scope_id:
  "setupKeys sample_runtime noon [''AIza-one'', ''AIza-two''] ['' cx-one '', '' '']
      (sample_manager [spent_key])
     = Inr \<lparr>config =
             \<lparr>keys =
                [\<lparr>id' = ''key_1'', apiKey = ''AIza-one'', searchEngineId = ''cx-one'',
                  dailyUsage = 0, dailyLimit = 100, lastReset = ''2026-11-03'', isActive = True\<rparr>,
                 \<lparr>id' = ''key_2'', apiKey = ''AIza-two'', searchEngineId = ''cx-one'',
                  dailyUsage = 0, dailyLimit = 100, lastReset = ''2026-11-03'', isActive = True\<rparr>],
              lastUpdated = noon, version = Some ''1.0.0''\<rparr>,
            fs = \<lparr>contents = Some ''keys=2'', readable = True, writable = True\<rparr>\<rparr>
   \<and> map (spec_scope_id ['' cx-one '', '' '']) [0, 1] = ['' cx-one '', '' '']"
  by (simp add: setupKeys_def Let_def saveConfig_Inr setup_loop.simps searchEngineId_for_eq
        trim_eval toString_eval sample_defs spec_scope_id_def)

subsection \<open>Loading\<close>

lemma migrate_eq:
  "migrateIfNeeded rt now m =
     (if falsy (version (config m))
      then Inr (m\<lparr>config := (config m)\<lparr>version := Some ''1.0.0'', lastUpdated := now\<rparr>,
                  fs := (if writable (fs m)
                         then (fs m)\<lparr>contents := Some (JSON_stringify rt
                                 ((config m)\<lparr>version := Some ''1.0.0'', lastUpdated := now\<rparr>))\<rparr>
                         else fs m)\<rparr>)
      else Inr m)"
  by (simp add: migrateIfNeeded_def saveConfig_Inr)

lemma loadConfig_fallback:
  "contents f = None \<or> \<not> readable f \<or> (\<exists>data. contents f = Some data \<and> JSON_parse rt data = None)
   \<Longrightarrow> loadConfig rt now f =
         Inr \<lparr>config = \<lparr>keys = [], lastUpdated = now, version = Some ''1.0.0''\<rparr>, fs = f\<rparr>"
  by (auto simp: loadConfig_def existsSync_def readFileSync_def parse_def try_catch_def
        and_then_def)

lemma loadConfig_parsed:
  "contents f = Some data \<Longrightarrow> readable f \<Longrightarrow> JSON_parse rt data = Some c \<Longrightarrow>
     loadConfig rt now f =
       and_then (migrateIfNeeded rt now \<lparr>config = c, fs = f\<rparr>) (resetDailyUsageIfNeeded rt now)"
  by (simp add: loadConfig_def existsSync_def readFileSync_def parse_def try_catch_def
        and_then_def migrate_eq reset_eq saveConfig_Inr Let_def)

lemma loadConfig_Inr: "\<exists>m. loadConfig rt now f = Inr m"
proof (cases "contents f = None \<or> \<not> readable f
    \<or> (\<exists>data. contents f = Some data \<and> JSON_parse rt data = None)")
  case True
  then show ?thesis using loadConfig_fallback by blast
next
  case False
  then obtain data c where "contents f = Some data" "readable f" "JSON_parse rt data = Some c"
    by auto
  then show ?thesis
    by (simp add: loadConfig_parsed migrate_eq reset_eq saveConfig_Inr and_then_def Let_def)
qed

lemma perform_empty:
  "keys (config m) = [] \<Longrightarrow> \<not> is_setup op \<Longrightarrow> perform rt now op m = Inr m"
  by (cases op)
    (simp_all add: is_setup_def getAvailableKey_def getQuotaStatus_def incrementUsage_def
      disableKey_def reset_fresh and_then_def Let_def)

lemma run_empty:
  "keys (config m) = [] \<Longrightarrow> \<forall>(t, op) \<in> set ops. \<not> is_setup op \<Longrightarrow> run rt ops m = Inr m"
  by (induction ops) (auto simp: perform_empty and_then_def)

lemma loadConfig_migrates:
  assumes "contents f = Some data" "readable f" "JSON_parse rt data = Some c"
    "falsy (version c)"
  shows "\<exists>m. loadConfig rt now f = Inr m
     \<and> version (config m) = Some ''1.0.0''
     \<and> keys (config m) = map (rollover (today_of now)) (keys c)
     \<and> (writable f \<longrightarrow> contents (fs m) = Some (JSON_stringify rt (config m)))"
proof (cases "\<exists>k \<in> set (keys c). lastReset k \<noteq> today_of now")
  case True
  with assms show ?thesis
    by (simp add: loadConfig_parsed migrate_eq reset_eq saveConfig_Inr and_then_def Let_def)
next
  case False
  then have "map (rollover (today_of now)) (keys c) = keys c"
    by (simp add: map_rollover_id)
  with False assms show ?thesis
    by (simp add: loadConfig_parsed migrate_eq reset_eq saveConfig_Inr and_then_def Let_def)
qed

lemma loadConfig_keys:
  assumes "contents f = Some data" "readable f" "JSON_parse rt data = Some c"
  shows "\<exists>m1. loadConfig rt now f = Inr m1
     \<and> keys (config m1) = map (rollover (today_of now)) (keys c)"
  using assms
  by (simp add: loadConfig_parsed migrate_eq reset_eq saveConfig_Inr and_then_def Let_def)

text \<open>
  C7. \<^verbatim>\<open>loadConfig\<close> returns normally on every file. When the file is absent, cannot be
  read or does not parse, the store has no records and version 1.0.0, the file is as it
  was, and it stays so under every sequence of operations without \<^verbatim>\<open>setupKeys\<close>. When the
  file parses to an object whose \<^verbatim>\<open>version\<close> is absent (or empty), the loaded store has
  version 1.0.0, the records of the file after the day-rollover reset, and, the file
  being writable, the file holds the serialisation of the loaded store.
\<close>

theorem loadConfig_never_fails:
  "(\<exists>m. loadConfig rt now f = Inr m)
   \<and> (contents f = None \<or> \<not> readable f
        \<or> (\<exists>data. contents f = Some data \<and> JSON_parse rt data = None) \<longrightarrow>
      loadConfig rt now f =
        Inr \<lparr>config = \<lparr>keys = [], lastUpdated = now, version = Some ''1.0.0''\<rparr>, fs = f\<rparr>
      \<and> (\<forall>ops. (\<forall>(t, op) \<in> set ops. \<not> is_setup op) \<longrightarrow>
            (\<exists>m'. run rt ops
                     \<lparr>config = \<lparr>keys = [], lastUpdated = now, version = Some ''1.0.0''\<rparr>, fs = f\<rparr>
                   = Inr m'
               \<and> fs m' = f \<and> keys (config m') = [])))
   \<and> (\<forall>data c. contents f = Some data \<and> readable f \<and> JSON_parse rt data = Some c
          \<and> falsy (version c) \<longrightarrow>
        (\<exists>m. loadConfig rt now f = Inr m
           \<and> version (config m) = Some ''1.0.0''
           \<and> keys (config m) = map (rollover (today_of now)) (keys c)
           \<and> (writable f \<longrightarrow> contents (fs m) = Some (JSON_stringify rt (config m)))))"
proof (intro conjI impI allI)
  show "\<exists>m. loadConfig rt now f = Inr m" by (rule loadConfig_Inr)
next
  assume "contents f = None \<or> \<not> readable f
        \<or> (\<exists>data. contents f = Some data \<and> JSON_parse rt data = None)"
  then show "loadConfig rt now f =
        Inr \<lparr>config = \<lparr>keys = [], lastUpdated = now, version = Some ''1.0.0''\<rparr>, fs = f\<rparr>"
    by (rule loadConfig_fallback)
next
  fix ops :: "(string \<times> operation) list"
  assume "\<forall>(t, op) \<in> set ops. \<not> is_setup op"
  then have "run rt ops
       \<lparr>config = \<lparr>keys = [], lastUpdated = now, version = Some ''1.0.0''\<rparr>, fs = f\<rparr>
     = Inr \<lparr>config = \<lparr>keys = [], lastUpdated = now, version = Some ''1.0.0''\<rparr>, fs = f\<rparr>"
    by (intro run_empty) simp_all
  then show "\<exists>m'. run rt ops
                     \<lparr>config = \<lparr>keys = [], lastUpdated = now, version = Some ''1.0.0''\<rparr>, fs = f\<rparr>
                   = Inr m'
               \<and> fs m' = f \<and> keys (config m') = []"
    by simp
next
  fix data c
  assume "contents f = Some data \<and> readable f \<and> JSON_parse rt data = Some c
          \<and> falsy (version c)"
  then show "\<exists>m. loadConfig rt now f = Inr m
           \<and> version (config m) = Some ''1.0.0''
           \<and> keys (config m) = map (rollover (today_of now)) (keys c)
           \<and> (writable f \<longrightarrow> contents (fs m) = Some (JSON_stringify rt (config m)))"
    using loadConfig_migrates by blast
qed

theorem loadConfig_never_fails_witness:
  "loadConfig sample_runtime noon sample_disk =
     Inr \<lparr>config = \<lparr>keys = [], lastUpdated = noon, version = Some ''1.0.0''\<rparr>, fs = sample_disk\<rparr>
   \<and> (\<exists>m'. run sample_runtime [(noon, GetAvailableKey), (noon, IncrementUsage ''key_1'')]
              \<lparr>config = \<lparr>keys = [], lastUpdated = noon, version = Some ''1.0.0''\<rparr>,
               fs = sample_disk\<rparr> = Inr m'
          \<and> fs m' = sample_disk)
   \<and> (\<exists>m. loadConfig sample_runtime noon (sample_disk\<lparr>contents := Some ''legacy''\<rparr>) = Inr m
          \<and> version (config m) = Some ''1.0.0''
          \<and> contents (fs m) = Some ''keys=0'')"
proof -
  note t = loadConfig_never_fails [of sample_runtime noon]
  have a: "contents sample_disk = None \<or> \<not> readable sample_disk
        \<or> (\<exists>data. contents sample_disk = Some data \<and> JSON_parse sample_runtime data = None)"
    by (simp add: sample_disk_def sample_runtime_def)
  have b: "\<forall>(t, op) \<in> set [(noon, GetAvailableKey), (noon, IncrementUsage ''key_1'')].
             \<not> is_setup op"
    by (simp add: is_setup_def)
  from t [of sample_disk] a
  have 1: "loadConfig sample_runtime noon sample_disk =
     Inr \<lparr>config = \<lparr>keys = [], lastUpdated = noon, version = Some ''1.0.0''\<rparr>, fs = sample_disk\<rparr>"
    and 2: "\<forall>ops. (\<forall>(t, op) \<in> set ops. \<not> is_setup op) \<longrightarrow>
            (\<exists>m'. run sample_runtime ops
                     \<lparr>config = \<lparr>keys = [], lastUpdated = noon, version = Some ''1.0.0''\<rparr>,
                      fs = sample_disk\<rparr>
                   = Inr m'
               \<and> fs m' = sample_disk \<and> keys (config m') = [])"
    by blast+
  from 2 b have 3: "\<exists>m'. run sample_runtime [(noon, GetAvailableKey), (noon, IncrementUsage ''key_1'')]
              \<lparr>config = \<lparr>keys = [], lastUpdated = noon, version = Some ''1.0.0''\<rparr>,
               fs = sample_disk\<rparr> = Inr m'
          \<and> fs m' = sample_disk"
    by blast
  let ?f = "sample_disk\<lparr>contents := Some ''legacy''\<rparr>"
  let ?c = "\<lparr>keys = [], lastUpdated = [], version = None\<rparr>"
  have c: "contents ?f = Some ''legacy'' \<and> readable ?f \<and> JSON_parse sample_runtime ''legacy'' = Some ?c
          \<and> falsy (version ?c)"
    by (simp add: sample_disk_def sample_runtime_def falsy_def)
  from t [of ?f, THEN conjunct2, THEN conjunct2, rule_format, OF c]
  obtain m where m: "loadConfig sample_runtime noon ?f = Inr m"
    "version (config m) = Some ''1.0.0''"
    "keys (config m) = map (rollover (today_of noon)) (keys ?c)"
    "writable ?f \<longrightarrow> contents (fs m) = Some (JSON_stringify sample_runtime (config m))"
    by blast
  from m(3,4) have "contents (fs m) = Some ''keys=0''"
    by (simp add: sample_disk_def sample_runtime_def toString_eval)
  with m(1,2) have 4: "\<exists>m. loadConfig sample_runtime noon ?f = Inr m
          \<and> version (config m) = Some ''1.0.0''
          \<and> contents (fs m) = Some ''keys=0''"
    by blast
  from 1 3 4 show ?thesis by blast
qed

subsection \<open>The day-rollover reset\<close>

lemma lastReset_update_first:
  assumes g: "\<And>k. lastReset (g k) = lastReset k"
  shows "map lastReset
           (case find_ref P ks of Some n \<Rightarrow> ks[n := g (ks ! n)] | None \<Rightarrow> ks)
         = map lastReset ks"
proof (cases "find_ref P ks")
  case None
  then show ?thesis by simp
next
  case (Some n)
  then have "n < length ks" by (simp add: find_ref_Some)
  then have "(map lastReset ks)[n := lastReset (ks ! n)] = map lastReset ks"
    by (simp add: list_update_same_conv)
  with Some show ?thesis by (simp add: map_update g)
qed

lemma all_fresh_iff: "(\<forall>k \<in> set ks. lastReset k = today) = (set (map lastReset ks) \<subseteq> {today})"
  by auto

lemma incrementUsage_keys:
  "\<exists>m1. incrementUsage rt now j m = Inr m1
     \<and> keys (config m1) =
         (case find_ref (\<lambda>k. id' k = j) (keys (config m)) of
            Some n \<Rightarrow> (keys (config m))
                        [n := (keys (config m) ! n)\<lparr>dailyUsage := number_add (dailyUsage (keys (config m) ! n)) 1\<rparr>]
          | None \<Rightarrow> keys (config m))"
  by (cases "find_ref (\<lambda>k. id' k = j) (keys (config m))")
    (simp_all add: incrementUsage_def saveConfig_Inr Let_def)

lemma disableKey_keys:
  "\<exists>m1. disableKey rt now j reason m = Inr m1
     \<and> keys (config m1) =
         (case find_ref (\<lambda>k. id' k = j) (keys (config m)) of
            Some n \<Rightarrow> (keys (config m))[n := (keys (config m) ! n)\<lparr>isActive := False\<rparr>]
          | None \<Rightarrow> keys (config m))"
  by (cases "find_ref (\<lambda>k. id' k = j) (keys (config m))")
    (simp_all add: disableKey_def saveConfig_Inr Let_def)

lemma perform_all_fresh:
  assumes "\<forall>k \<in> set (keys (config m)). lastReset k = today" "today_of t = today"
  shows "\<exists>m1. perform rt t op m = Inr m1 \<and> (\<forall>k \<in> set (keys (config m1)). lastReset k = today)"
proof (cases op)
  case GetAvailableKey
  with assms show ?thesis by (simp add: getAvailableKey_def reset_fresh and_then_def)
next
  case (IncrementUsage j)
  obtain m1 where m1: "incrementUsage rt t j m = Inr m1"
    "keys (config m1) =
         (case find_ref (\<lambda>k. id' k = j) (keys (config m)) of
            Some n \<Rightarrow> (keys (config m))
                        [n := (keys (config m) ! n)\<lparr>dailyUsage := number_add (dailyUsage (keys (config m) ! n)) 1\<rparr>]
          | None \<Rightarrow> keys (config m))"
    using incrementUsage_keys by blast
  have "map lastReset (keys (config m1)) = map lastReset (keys (config m))"
    unfolding m1(2) by (rule lastReset_update_first) simp
  with assms(1) have "\<forall>k \<in> set (keys (config m1)). lastReset k = today"
    unfolding all_fresh_iff by simp
  with m1(1) IncrementUsage show ?thesis by simp
next
  case GetQuotaStatus
  with assms show ?thesis by (simp add: getQuotaStatus_def reset_fresh and_then_def Let_def)
next
  case (DisableKey j reason)
  obtain m1 where m1: "disableKey rt t j reason m = Inr m1"
    "keys (config m1) =
         (case find_ref (\<lambda>k. id' k = j) (keys (config m)) of
            Some n \<Rightarrow> (keys (config m))[n := (keys (config m) ! n)\<lparr>isActive := False\<rparr>]
          | None \<Rightarrow> keys (config m))"
    using disableKey_keys by blast
  have "map lastReset (keys (config m1)) = map lastReset (keys (config m))"
    unfolding m1(2) by (rule lastReset_update_first) simp
  with assms(1) have "\<forall>k \<in> set (keys (config m1)). lastReset k = today"
    unfolding all_fresh_iff by simp
  with m1(1) DisableKey show ?thesis by simp
next
  case HasValidConfig
  with assms show ?thesis by simp
next
  case (SetupKeys a b)
  obtain m1 where "setupKeys rt t a b m = Inr m1"
    "keys (config m1) = map (new_key t a b) [0 ..< length a]"
    using setupKeys_keys by blast
  with assms(2) SetupKeys show ?thesis by (simp add: new_key_def)
qed

lemma run_all_fresh:
  "\<forall>k \<in> set (keys (config m)). lastReset k = today \<Longrightarrow>
   \<forall>(t, op) \<in> set ops. today_of t = today \<Longrightarrow>
     \<exists>m1. run rt ops m = Inr m1 \<and> (\<forall>k \<in> set (keys (config m1)). lastReset k = today)"
proof (induction ops arbitrary: m)
  case Nil
  then show ?case by simp
next
  case (Cons a ops)
  obtain t op where a: "a = (t, op)" by (cases a)
  with Cons.prems(2) have d: "today_of t = today" "\<forall>(t, op) \<in> set ops. today_of t = today"
    by simp_all
  from perform_all_fresh [OF Cons.prems(1) d(1)]
  obtain m1 where m1: "perform rt t op m = Inr m1"
    "\<forall>k \<in> set (keys (config m1)). lastReset k = today"
    by blast
  from Cons.IH [OF m1(2) d(2)] m1(1) a show ?case by (simp add: and_then_def)
qed

text \<open>
  C2, as the code has it. \<^verbatim>\<open>getAvailableKey\<close>, \<^verbatim>\<open>getQuotaStatus\<close> and \<^verbatim>\<open>loadConfig\<close> of a
  file that parses leave every record as the day-rollover reset makes it: a record whose
  \<^verbatim>\<open>lastReset\<close> is not today gets \<^verbatim>\<open>dailyUsage\<close> 0, \<^verbatim>\<open>lastReset\<close> today and \<^verbatim>\<open>isActive\<close>
  true, a record whose \<^verbatim>\<open>lastReset\<close> is today stays as it is. \<^verbatim>\<open>incrementUsage\<close> and
  \<^verbatim>\<open>disableKey\<close> reset nothing: they leave every \<^verbatim>\<open>lastReset\<close> as it was. Once every
  record's \<^verbatim>\<open>lastReset\<close> is today, it stays so under every sequence of operations of that
  day, and a reset on that day changes nothing: no record is reset twice on one day.
\<close>

theorem rollover_on_reads_only:
  "(\<exists>r m1. getAvailableKey rt now m = Inr (r, m1)
      \<and> keys (config m1) = map (rollover (today_of now)) (keys (config m)))
   \<and> (\<exists>q m1. getQuotaStatus rt now m = Inr (q, m1)
      \<and> keys (config m1) = map (rollover (today_of now)) (keys (config m)))
   \<and> (\<forall>data c. contents f = Some data \<and> readable f \<and> JSON_parse rt data = Some c \<longrightarrow>
        (\<exists>m1. loadConfig rt now f = Inr m1
           \<and> keys (config m1) = map (rollover (today_of now)) (keys c)))
   \<and> (\<forall>k. lastReset k \<noteq> today_of now \<longrightarrow>
        rollover (today_of now) k
          = k\<lparr>dailyUsage := 0, lastReset := today_of now, isActive := True\<rparr>)
   \<and> (\<forall>k. lastReset k = today_of now \<longrightarrow> rollover (today_of now) k = k)
   \<and> (\<exists>m1. incrementUsage rt now keyId m = Inr m1
      \<and> map lastReset (keys (config m1)) = map lastReset (keys (config m)))
   \<and> (\<exists>m1. disableKey rt now keyId reason m = Inr m1
      \<and> map lastReset (keys (config m1)) = map lastReset (keys (config m)))
   \<and> (\<forall>ops. (\<forall>k \<in> set (keys (config m)). lastReset k = today_of now)
          \<and> (\<forall>(t, op) \<in> set ops. today_of t = today_of now) \<longrightarrow>
        (\<exists>m1. run rt ops m = Inr m1
           \<and> (\<forall>k \<in> set (keys (config m1)). lastReset k = today_of now)
           \<and> resetDailyUsageIfNeeded rt now m1 = Inr m1))"
proof -
  have 1: "\<exists>r m1. getAvailableKey rt now m = Inr (r, m1)
      \<and> keys (config m1) = map (rollover (today_of now)) (keys (config m))"
    using reset_Inr [of rt now m] by (auto simp: getAvailableKey_def and_then_def)
  have 2: "\<exists>q m1. getQuotaStatus rt now m = Inr (q, m1)
      \<and> keys (config m1) = map (rollover (today_of now)) (keys (config m))"
    using reset_Inr [of rt now m] by (auto simp: getQuotaStatus_def and_then_def Let_def)
  have 3: "\<forall>data c. contents f = Some data \<and> readable f \<and> JSON_parse rt data = Some c \<longrightarrow>
        (\<exists>m1. loadConfig rt now f = Inr m1
           \<and> keys (config m1) = map (rollover (today_of now)) (keys c))"
    using loadConfig_keys by blast
  have 4: "\<forall>k. lastReset k \<noteq> today_of now \<longrightarrow>
        rollover (today_of now) k
          = k\<lparr>dailyUsage := 0, lastReset := today_of now, isActive := True\<rparr>"
    by (simp add: rollover_def)
  have 5: "\<forall>k. lastReset k = today_of now \<longrightarrow> rollover (today_of now) k = k"
    by (simp add: rollover_def)
  obtain mi where mi: "incrementUsage rt now keyId m = Inr mi"
    "keys (config mi) =
         (case find_ref (\<lambda>k. id' k = keyId) (keys (config m)) of
            Some n \<Rightarrow> (keys (config m))
                        [n := (keys (config m) ! n)\<lparr>dailyUsage := number_add (dailyUsage (keys (config m) ! n)) 1\<rparr>]
          | None \<Rightarrow> keys (config m))"
    using incrementUsage_keys by blast
  have "map lastReset (keys (config mi)) = map lastReset (keys (config m))"
    unfolding mi(2) by (rule lastReset_update_first) simp
  with mi(1) have 6: "\<exists>m1. incrementUsage rt now keyId m = Inr m1
      \<and> map lastReset (keys (config m1)) = map lastReset (keys (config m))"
    by blast
  obtain md where md: "disableKey rt now keyId reason m = Inr md"
    "keys (config md) =
         (case find_ref (\<lambda>k. id' k = keyId) (keys (config m)) of
            Some n \<Rightarrow> (keys (config m))[n := (keys (config m) ! n)\<lparr>isActive := False\<rparr>]
          | None \<Rightarrow> keys (config m))"
    using disableKey_keys by blast
  have "map lastReset (keys (config md)) = map lastReset (keys (config m))"
    unfolding md(2) by (rule lastReset_update_first) simp
  with md(1) have 7: "\<exists>m1. disableKey rt now keyId reason m = Inr m1
      \<and> map lastReset (keys (config m1)) = map lastReset (keys (config m))"
    by blast
  have 8: "\<forall>ops. (\<forall>k \<in> set (keys (config m)). lastReset k = today_of now)
          \<and> (\<forall>(t, op) \<in> set ops. today_of t = today_of now) \<longrightarrow>
        (\<exists>m1. run rt ops m = Inr m1
           \<and> (\<forall>k \<in> set (keys (config m1)). lastReset k = today_of now)
           \<and> resetDailyUsageIfNeeded rt now m1 = Inr m1)"
  proof (intro allI impI)
    fix ops :: "(string \<times> operation) list"
    assume a: "(\<forall>k \<in> set (keys (config m)). lastReset k = today_of now)
          \<and> (\<forall>(t, op) \<in> set ops. today_of t = today_of now)"
    then obtain m1 where m1: "run rt ops m = Inr m1"
      "\<forall>k \<in> set (keys (config m1)). lastReset k = today_of now"
      using run_all_fresh [of m "today_of now" ops rt] by blast
    from m1(2) have "resetDailyUsageIfNeeded rt now m1 = Inr m1" by (rule reset_fresh)
    with m1 show "\<exists>m1. run rt ops m = Inr m1
           \<and> (\<forall>k \<in> set (keys (config m1)). lastReset k = today_of now)
           \<and> resetDailyUsageIfNeeded rt now m1 = Inr m1"
      by blast
  qed
  from 1 2 3 4 5 6 7 8 show ?thesis by blast
qed

theorem rollover_on_reads_only_witness:
  "(\<exists>r m1. getAvailableKey sample_runtime noon (sample_manager [stale_key, fresh_key])
              = Inr (r, m1)
       \<and> keys (config m1) =
           [stale_key\<lparr>dailyUsage := 0, lastReset := ''2026-11-03'', isActive := True\<rparr>,
            fresh_key])
   \<and> (\<exists>m1. incrementUsage sample_runtime noon ''key_1'' (sample_manager [stale_key, fresh_key])
              = Inr m1
       \<and> map lastReset (keys (config m1)) = [''2026-11-02'', ''2026-11-03''])"
proof -
  let ?m = "sample_manager [stale_key, fresh_key]"
  note t = rollover_on_reads_only [of sample_runtime noon ?m sample_disk "''key_1''" "''403''"]
  have k: "keys (config ?m) = [stale_key, fresh_key]" by (simp add: sample_manager_def)
  have r: "map (rollover (today_of noon)) [stale_key, fresh_key] =
           [stale_key\<lparr>dailyUsage := 0, lastReset := ''2026-11-03'', isActive := True\<rparr>,
            fresh_key]"
    by (simp add: rollover_def sample_defs)
  have l: "map lastReset [stale_key, fresh_key] = [''2026-11-02'', ''2026-11-03'']"
    by (simp add: sample_defs)
  from t have "\<exists>r m1. getAvailableKey sample_runtime noon ?m = Inr (r, m1)
      \<and> keys (config m1) = map (rollover (today_of noon)) (keys (config ?m))"
    by blast
  moreover from t have "\<exists>m1. incrementUsage sample_runtime noon ''key_1'' ?m = Inr m1
      \<and> map lastReset (keys (config m1)) = map lastReset (keys (config ?m))"
    by blast
  ultimately show ?thesis unfolding k r l by blast
qed

text \<open>
  C2 as stated fails for \<^verbatim>\<open>incrementUsage\<close> and \<^verbatim>\<open>disableKey\<close>: on 2026-11-03, on a record
  with \<^verbatim>\<open>lastReset\<close> 2026-11-02, usage 57 and \<^verbatim>\<open>isActive\<close> false, the first leaves usage
  58, the second usage 57, both the old \<^verbatim>\<open>lastReset\<close> and \<^verbatim>\<open>isActive\<close> false.
\<close>

theorem incrementUsage_without_reset:
  "incrementUsage sample_runtime noon ''key_1'' (sample_manager [stale_key])
     = Inr \<lparr>config =
             \<lparr>keys =
                [\<lparr>id' = ''key_1'', apiKey = ''AIza-one'', searchEngineId = ''cx-one'',
                  dailyUsage = 58, dailyLimit = 100, lastReset = ''2026-11-02'',
                  isActive = False\<rparr>],
              lastUpdated = noon, version = Some ''1.0.0''\<rparr>,
            fs = \<lparr>contents = Some ''keys=1'', readable = True, writable = True\<rparr>\<rparr>
   \<and> disableKey sample_runtime noon ''key_1'' ''403'' (sample_manager [stale_key])
     = Inr \<lparr>config =
             \<lparr>keys =
                [\<lparr>id' = ''key_1'', apiKey = ''AIza-one'', searchEngineId = ''cx-one'',
                  dailyUsage = 57, dailyLimit = 100, lastReset = ''2026-11-02'',
                  isActive = False\<rparr>],
              lastUpdated = noon, version = Some ''1.0.0''\<rparr>,
            fs = \<lparr>contents = Some ''keys=1'', readable = True, writable = True\<rparr>\<rparr>
   \<and> today_of noon = ''2026-11-03''"
  by (simp add: incrementUsage_def disableKey_def saveConfig_Inr Let_def sample_defs number_add_eval
        toString_eval)

subsection \<open>Operations within one day\<close>

lemma find_update_first:
  assumes g: "\<And>k. id' (g k) = id' k"
  shows "find (\<lambda>k. id' k = i)
           (case find_ref (\<lambda>k. id' k = j) ks of Some n \<Rightarrow> ks[n := g (ks ! n)] | None \<Rightarrow> ks)
         = (if j = i then map_option g (find (\<lambda>k. id' k = i) ks)
            else find (\<lambda>k. id' k = i) ks)"
proof (induction ks)
  case Nil
  then show ?case by simp
next
  case (Cons a ks)
  show ?case
  proof (cases "id' a = j")
    case True
    then show ?thesis by (simp add: g)
  next
    case False
    with Cons show ?thesis
      by (cases "find_ref (\<lambda>k. id' k = j) ks") (auto simp: g)
  qed
qed

lemma ids_update_first:
  assumes g: "\<And>k. id' (g k) = id' k"
  shows "map id'
           (case find_ref (\<lambda>k. id' k = j) ks of Some n \<Rightarrow> ks[n := g (ks ! n)] | None \<Rightarrow> ks)
         = map id' ks"
proof (cases "find_ref (\<lambda>k. id' k = j) ks")
  case None
  then show ?thesis by simp
next
  case (Some n)
  then have "n < length ks" by (simp add: find_ref_Some)
  then have "(map id' ks)[n := id' (ks ! n)] = map id' ks"
    by (simp add: list_update_same_conv)
  with Some show ?thesis by (simp add: map_update g)
qed

lemma find_map_rollover:
  "find (\<lambda>k. id' k = i) (map (rollover today) ks)
     = map_option (rollover today) (find (\<lambda>k. id' k = i) ks)"
  by (induction ks) (simp_all add: rollover_id')

lemma tracked_rollover:
  "tracked i today L n ks \<Longrightarrow> tracked i today L n (map (rollover today) ks)"
  by (auto simp: tracked_def find_map_rollover rollover_id split: option.splits)

lemma find_distinct_ids:
  "distinct (map id' ks) \<Longrightarrow> k \<in> set ks \<Longrightarrow> find (\<lambda>x. id' x = id' k) ks = Some k"
  by (induction ks) (auto simp: image_iff)

lemma tracked_weaken: "tracked i today L n ks \<Longrightarrow> n' \<le> n \<Longrightarrow> tracked i today L n' ks"
  by (auto simp: tracked_def split: option.splits)

lemma number_add_one_lower:
  assumes "0 \<le> d" "n \<le> d" "L \<le> 2 ^ 53"
  shows "0 \<le> number_add d 1 \<and> min L (n + 1) \<le> number_add d 1"
proof (cases "d < 2 ^ 53")
  case True
  with assms(1) have "number_add d 1 = d + 1" by (intro number_add_exact) simp_all
  with assms(1,2) show ?thesis by simp
next
  case False
  then have "2 ^ 53 \<le> d + 1" by simp
  then have "2 ^ 53 \<le> number_add d 1" by (rule number_add_large)
  with assms(3) show ?thesis by simp
qed

lemma perform_tracked:
  assumes "tracked i today L n (keys (config m))" "today_of t = today" "\<not> is_setup op"
    "L \<le> 2 ^ 53"
  shows "\<exists>m1. perform rt t op m = Inr m1
     \<and> map id' (keys (config m1)) = map id' (keys (config m))
     \<and> tracked i today L (min L (n + (if op = IncrementUsage i then 1 else 0)))
          (keys (config m1))"
proof (cases op)
  case GetAvailableKey
  obtain m1 where "resetDailyUsageIfNeeded rt t m = Inr m1"
    "keys (config m1) = map (rollover (today_of t)) (keys (config m))"
    using reset_Inr by blast
  with assms GetAvailableKey show ?thesis
    by (simp add: getAvailableKey_def and_then_def tracked_rollover rollover_id' comp_def
          tracked_weaken)
next
  case (IncrementUsage j)
  obtain m1 where m1: "incrementUsage rt t j m = Inr m1"
    "keys (config m1) =
         (case find_ref (\<lambda>k. id' k = j) (keys (config m)) of
            Some n \<Rightarrow> (keys (config m))
                        [n := (keys (config m) ! n)
                                \<lparr>dailyUsage := number_add (dailyUsage (keys (config m) ! n)) 1\<rparr>]
          | None \<Rightarrow> keys (config m))"
    using incrementUsage_keys by blast
  have f: "find (\<lambda>k. id' k = i) (keys (config m1))
     = (if j = i
        then map_option (\<lambda>k. k\<lparr>dailyUsage := number_add (dailyUsage k) 1\<rparr>)
               (find (\<lambda>k. id' k = i) (keys (config m)))
        else find (\<lambda>k. id' k = i) (keys (config m)))"
    unfolding m1(2) by (rule find_update_first) simp
  have d: "map id' (keys (config m1)) = map id' (keys (config m))"
    unfolding m1(2) by (rule ids_update_first) simp
  from assms(1) obtain k where k: "find (\<lambda>k. id' k = i) (keys (config m)) = Some k"
    "lastReset k = today" "dailyLimit k = L" "0 \<le> dailyUsage k" "n \<le> dailyUsage k"
    by (auto simp: tracked_def split: option.splits)
  have "tracked i today L (min L (n + (if j = i then 1 else 0))) (keys (config m1))"
  proof (cases "j = i")
    case True
    from number_add_one_lower [OF k(4,5) assms(4)] True f k(1,2,3) show ?thesis
      by (simp add: tracked_def)
  next
    case False
    with f k show ?thesis by (simp add: tracked_def)
  qed
  with m1(1) d IncrementUsage show ?thesis by simp
next
  case GetQuotaStatus
  obtain m1 where "resetDailyUsageIfNeeded rt t m = Inr m1"
    "keys (config m1) = map (rollover (today_of t)) (keys (config m))"
    using reset_Inr by blast
  with assms GetQuotaStatus show ?thesis
    by (simp add: getQuotaStatus_def and_then_def tracked_rollover rollover_id' comp_def Let_def
          tracked_weaken)
next
  case (DisableKey j reason)
  obtain m1 where m1: "disableKey rt t j reason m = Inr m1"
    "keys (config m1) =
         (case find_ref (\<lambda>k. id' k = j) (keys (config m)) of
            Some n \<Rightarrow> (keys (config m))[n := (keys (config m) ! n)\<lparr>isActive := False\<rparr>]
          | None \<Rightarrow> keys (config m))"
    using disableKey_keys by blast
  have f: "find (\<lambda>k. id' k = i) (keys (config m1))
     = (if j = i
        then map_option (\<lambda>k. k\<lparr>isActive := False\<rparr>)
               (find (\<lambda>k. id' k = i) (keys (config m)))
        else find (\<lambda>k. id' k = i) (keys (config m)))"
    unfolding m1(2) by (rule find_update_first) simp
  have d: "map id' (keys (config m1)) = map id' (keys (config m))"
    unfolding m1(2) by (rule ids_update_first) simp
  from assms(1) f have "tracked i today L (min L n) (keys (config m1))"
    by (auto simp: tracked_def split: option.splits)
  with m1(1) d DisableKey show ?thesis by simp
next
  case HasValidConfig
  with assms show ?thesis by (simp add: tracked_weaken)
next
  case (SetupKeys a b)
  with assms show ?thesis by (simp add: is_setup_def)
qed

lemma run_tracked:
  "tracked i today L n (keys (config m)) \<Longrightarrow> same_day_use today ops \<Longrightarrow> L \<le> 2 ^ 53 \<Longrightarrow>
     \<exists>m1. run rt ops m = Inr m1
       \<and> map id' (keys (config m1)) = map id' (keys (config m))
       \<and> tracked i today L (min L (n + int (increments i ops))) (keys (config m1))"
proof (induction ops arbitrary: m n)
  case Nil
  then show ?case by (simp add: increments_def tracked_weaken)
next
  case (Cons a ops)
  obtain t op where a: "a = (t, op)" by (cases a)
  from Cons.prems(2) a have d: "today_of t = today" "\<not> is_setup op" "same_day_use today ops"
    by (simp_all add: same_day_use_def)
  let ?n1 = "min L (n + (if op = IncrementUsage i then 1 else 0))"
  from perform_tracked [OF Cons.prems(1) d(1,2) Cons.prems(3)]
  obtain m1 where m1: "perform rt t op m = Inr m1"
    "map id' (keys (config m1)) = map id' (keys (config m))"
    "tracked i today L ?n1 (keys (config m1))"
    by blast
  from Cons.IH [OF m1(3) d(3) Cons.prems(3)]
  obtain m2 where m2: "run rt ops m1 = Inr m2"
    "map id' (keys (config m2)) = map id' (keys (config m1))"
    "tracked i today L (min L (?n1 + int (increments i ops))) (keys (config m2))"
    by blast
  have "min L (n + int (increments i (a # ops))) \<le> min L (?n1 + int (increments i ops))"
    by (cases "op = IncrementUsage i") (simp_all add: increments_def a min_def)
  with m2(3) have "tracked i today L (min L (n + int (increments i (a # ops)))) (keys (config m2))"
    by (rule tracked_weaken)
  with m1 m2 a show ?case by (simp add: and_then_def)
qed

text \<open>
  C3, as the code has it. Let the ids of the store be distinct, and let the credential
  \<open>keyId\<close> have a limit \<open>L\<close> of at most \<open>2^53\<close>, a usage of at least \<open>u\<close> that is not
  negative, and \<^verbatim>\<open>lastReset\<close> today (no reset is pending). After every sequence of
  operations of that day, other than \<^verbatim>\<open>setupKeys\<close>, that calls \<^verbatim>\<open>incrementUsage\<close> on
  \<open>keyId\<close> at least \<open>L - u\<close> times, a \<^verbatim>\<open>getAvailableKey\<close> of that day does not return a
  record with the id \<open>keyId\<close>; and when some record is eligible after its reset, it returns
  an eligible record with another id. Any longer sequence is such a sequence too, so
  this holds for the rest of the day.
\<close>

theorem exhausted_key_not_selected:
  assumes "distinct (map id' (keys (config m)))"
    and "tracked keyId today L u (keys (config m))"
    and "L \<le> 2 ^ 53"
    and "same_day_use today ops"
    and "L \<le> u + int (increments keyId ops)"
    and "today_of now = today"
  shows "\<exists>m1 r m2. run rt ops m = Inr m1 \<and> getAvailableKey rt now m1 = Inr (r, m2)
     \<and> (\<forall>k. r = Some k \<longrightarrow> id' k \<noteq> keyId)
     \<and> ((\<exists>k \<in> set (keys (config m2)). eligible k) \<longrightarrow>
          (\<exists>k. r = Some k \<and> eligible k \<and> id' k \<noteq> keyId))"
proof -
  from run_tracked [OF assms(2,4,3)]
  obtain m1 where m1: "run rt ops m = Inr m1"
    "map id' (keys (config m1)) = map id' (keys (config m))"
    "tracked keyId today L (min L (u + int (increments keyId ops))) (keys (config m1))"
    by blast
  from m1(3) assms(5) have t1: "tracked keyId today L L (keys (config m1))"
    by (simp add: min_def)
  obtain m2 where m2: "resetDailyUsageIfNeeded rt now m1 = Inr m2"
    "keys (config m2) = map (rollover (today_of now)) (keys (config m1))"
    using reset_Inr by blast
  let ?r = "first_available (keys (config m2))"
  have g: "getAvailableKey rt now m1 = Inr (?r, m2)"
    by (simp add: getAvailableKey_def m2(1) and_then_def)
  have d: "distinct (map id' (keys (config m2)))"
    using assms(1) m1(2) by (simp add: m2(2) rollover_id' comp_def)
  have t: "tracked keyId today L L (keys (config m2))"
    using t1 assms(6) by (simp add: m2(2) tracked_rollover)
  have no: "id' k \<noteq> keyId" if r: "?r = Some k" for k
  proof
    assume i: "id' k = keyId"
    from first_available_mem [OF r] have k: "k \<in> set (keys (config m2))" "eligible k" by simp_all
    from find_distinct_ids [OF d k(1)] i
    have "find (\<lambda>x. id' x = keyId) (keys (config m2)) = Some k" by simp
    with t have "dailyLimit k = L" "L \<le> dailyUsage k" by (simp_all add: tracked_def)
    with k(2) show False by (simp add: eligible_def)
  qed
  have some: "\<exists>k. ?r = Some k \<and> eligible k \<and> id' k \<noteq> keyId"
    if e: "\<exists>k \<in> set (keys (config m2)). eligible k"
  proof -
    from e have "?r \<noteq> None" by (simp add: first_available_None)
    then obtain k where k: "?r = Some k" by blast
    with first_available_mem [OF k] no [OF k] show ?thesis by simp
  qed
  from m1(1) g no some show ?thesis by blast
qed

theorem exhausted_key_not_selected_witness:
  "distinct (map id' [small_key, fresh_key])
   \<and> tracked ''key_1'' ''2026-11-03'' 2 0 [small_key, fresh_key]
   \<and> (2::int) \<le> 2 ^ 53
   \<and> same_day_use ''2026-11-03''
        [(morning, GetAvailableKey), (morning, IncrementUsage ''key_1''),
         (noon, GetQuotaStatus), (noon, IncrementUsage ''key_1'')]
   \<and> (2::int) \<le> 0 + int (increments ''key_1''
        [(morning, GetAvailableKey), (morning, IncrementUsage ''key_1''),
         (noon, GetQuotaStatus), (noon, IncrementUsage ''key_1'')])
   \<and> (\<exists>m1 r m2.
         run sample_runtime
           [(morning, GetAvailableKey), (morning, IncrementUsage ''key_1''),
            (noon, GetQuotaStatus), (noon, IncrementUsage ''key_1'')]
           (sample_manager [small_key, fresh_key]) = Inr m1
         \<and> getAvailableKey sample_runtime noon m1 = Inr (r, m2)
         \<and> r = Some fresh_key)"
proof -
  let ?ops = "[(morning, GetAvailableKey), (morning, IncrementUsage ''key_1''),
               (noon, GetQuotaStatus), (noon, IncrementUsage ''key_1'')]"
  let ?m = "sample_manager [small_key, fresh_key]"
  have k: "keys (config ?m) = [small_key, fresh_key]" by (simp add: sample_manager_def)
  have 1: "distinct (map id' (keys (config ?m)))"
    unfolding k by (simp add: small_key_def fresh_key_def)
  have 2: "tracked ''key_1'' ''2026-11-03'' 2 0 (keys (config ?m))"
    unfolding k by (simp add: tracked_def small_key_def)
  have b: "(2::int) \<le> 2 ^ 53" by simp
  have 3: "same_day_use ''2026-11-03'' ?ops"
    by (simp add: same_day_use_def is_setup_def sample_defs)
  have 4: "(2::int) \<le> 0 + int (increments ''key_1'' ?ops)"
    by (simp add: increments_def)
  have 5: "today_of noon = ''2026-11-03''" by (simp add: sample_defs)
  from exhausted_key_not_selected [OF 1 2 b 3 4 5, of sample_runtime]
  obtain m1 r m2 where r: "run sample_runtime ?ops ?m = Inr m1"
    "getAvailableKey sample_runtime noon m1 = Inr (r, m2)"
    "\<forall>k. r = Some k \<longrightarrow> id' k \<noteq> ''key_1''"
    by blast
  have e: "run sample_runtime ?ops ?m = Inr (saved_manager noon [small_key\<lparr>dailyUsage := 2\<rparr>, fresh_key])"
    by (simp add: getAvailableKey_def getQuotaStatus_def incrementUsage_def reset_eq
          saveConfig_Inr and_then_def Let_def rollover_def sample_defs
          toString_eval number_add_eval)
  from r(1) e have m1: "keys (config m1) = [small_key\<lparr>dailyUsage := 2\<rparr>, fresh_key]"
    by (auto simp: saved_manager_def)
  from r(2) have "r = first_available (map (rollover (today_of noon)) (keys (config m1)))"
    by (auto simp: getAvailableKey_def reset_eq saveConfig_Inr and_then_def Let_def
          split: if_splits)
  then have "r = Some fresh_key"
    by (simp add: m1 rollover_def sample_defs)
  with r(1,2) have 6: "\<exists>m1 r m2. run sample_runtime ?ops ?m = Inr m1
         \<and> getAvailableKey sample_runtime noon m1 = Inr (r, m2) \<and> r = Some fresh_key"
    by blast
  from 1 have d1: "distinct (map id' [small_key, fresh_key])" unfolding k .
  from 2 have d2: "tracked ''key_1'' ''2026-11-03'' 2 0 [small_key, fresh_key]" unfolding k .
  from d1 d2 b 3 4 6 show ?thesis by (intro conjI)
qed

lemma selected_again_pending:
  "run sample_runtime [(noon, IncrementUsage ''key_1''), (noon, IncrementUsage ''key_1'')]
       (sample_manager [pending_key, fresh_key])
     = Inr (saved_manager noon [pending_key\<lparr>dailyUsage := 2\<rparr>, fresh_key])
   \<and> getAvailableKey sample_runtime noon
         (saved_manager noon [pending_key\<lparr>dailyUsage := 2\<rparr>, fresh_key])
     = Inr (Some (pending_key\<lparr>dailyUsage := 0, lastReset := ''2026-11-03''\<rparr>),
            saved_manager noon
              [pending_key\<lparr>dailyUsage := 0, lastReset := ''2026-11-03''\<rparr>, fresh_key])"
  by (simp add: getAvailableKey_def incrementUsage_def reset_eq saveConfig_Inr and_then_def
        Let_def rollover_def sample_defs toString_eval number_add_eval)

lemma selected_again_twin:
  "run sample_runtime [(noon, IncrementUsage ''key_1''), (noon, IncrementUsage ''key_1'')]
       (sample_manager [small_key, twin_key])
     = Inr (saved_manager noon [small_key\<lparr>dailyUsage := 2\<rparr>, twin_key])
   \<and> getAvailableKey sample_runtime noon (saved_manager noon [small_key\<lparr>dailyUsage := 2\<rparr>, twin_key])
     = Inr (Some twin_key, saved_manager noon [small_key\<lparr>dailyUsage := 2\<rparr>, twin_key])
   \<and> id' twin_key = ''key_1''"
  by (simp add: getAvailableKey_def incrementUsage_def reset_eq saveConfig_Inr and_then_def
        Let_def rollover_def sample_defs toString_eval number_add_eval)

lemma selected_again_setup:
  "run sample_runtime
       [(noon, IncrementUsage ''key_1''), (noon, IncrementUsage ''key_1''),
        (noon, SetupKeys [''AIza-new''] [''cx-new''])]
       (sample_manager [small_key])
     = Inr (saved_manager noon
              [\<lparr>id' = ''key_1'', apiKey = ''AIza-new'', searchEngineId = ''cx-new'',
                dailyUsage = 0, dailyLimit = 100, lastReset = ''2026-11-03'', isActive = True\<rparr>])
   \<and> getAvailableKey sample_runtime noon
         (saved_manager noon
            [\<lparr>id' = ''key_1'', apiKey = ''AIza-new'', searchEngineId = ''cx-new'',
              dailyUsage = 0, dailyLimit = 100, lastReset = ''2026-11-03'', isActive = True\<rparr>])
     = Inr (Some \<lparr>id' = ''key_1'', apiKey = ''AIza-new'', searchEngineId = ''cx-new'',
                  dailyUsage = 0, dailyLimit = 100, lastReset = ''2026-11-03'', isActive = True\<rparr>,
            saved_manager noon
              [\<lparr>id' = ''key_1'', apiKey = ''AIza-new'', searchEngineId = ''cx-new'',
                dailyUsage = 0, dailyLimit = 100, lastReset = ''2026-11-03'', isActive = True\<rparr>])"
proof -
  have t: "trim ''AIza-new'' = ''AIza-new''" "trim ''cx-new'' = ''cx-new''"
    by (simp_all add: trim_def isWhiteSpace_def)
  show ?thesis
    by (simp add: getAvailableKey_def incrementUsage_def setupKeys_def setup_loop.simps
          searchEngineId_for_eq t reset_eq saveConfig_Inr and_then_def
          Let_def rollover_def sample_defs toString_eval number_add_eval)
qed

lemma selected_again_big:
  "incrementUsage sample_runtime noon ''key_1'' (saved_manager noon [big_key])
     = Inr (saved_manager noon [big_key])
   \<and> getAvailableKey sample_runtime noon (saved_manager noon [big_key])
     = Inr (Some big_key, saved_manager noon [big_key])
   \<and> dailyUsage big_key < dailyLimit big_key"
  by (simp add: getAvailableKey_def incrementUsage_def reset_eq saveConfig_Inr and_then_def
        Let_def rollover_def sample_defs toString_eval number_add_eval)

text \<open>
  C3 as stated fails in four ways, each on 2026-11-03 after two calls of
  \<^verbatim>\<open>incrementUsage\<close> on \<open>key_1\<close> (one, for the last):
  \<^item> with a reset pending (\<^verbatim>\<open>lastReset\<close> 2026-11-02, limit 2): the usage reaches 2, and the
    next \<^verbatim>\<open>getAvailableKey\<close> resets the record and returns it;
  \<^item> with two records of the id \<open>key_1\<close>: the first is exhausted, the second is returned;
  \<^item> with \<^verbatim>\<open>setupKeys\<close> in the sequence: the new \<open>key_1\<close> is returned;
  \<^item> with usage \<open>2^53\<close> and limit \<open>2^53 + 2\<close>: \<^verbatim>\<open>incrementUsage\<close> leaves the state as it
    is, so no number of calls reaches the limit, and the record is returned.
\<close>

theorem exhausted_key_selected_again:
  "(run sample_runtime [(noon, IncrementUsage ''key_1''), (noon, IncrementUsage ''key_1'')]
       (sample_manager [pending_key, fresh_key])
     = Inr (saved_manager noon [pending_key\<lparr>dailyUsage := 2\<rparr>, fresh_key])
   \<and> getAvailableKey sample_runtime noon
         (saved_manager noon [pending_key\<lparr>dailyUsage := 2\<rparr>, fresh_key])
     = Inr (Some (pending_key\<lparr>dailyUsage := 0, lastReset := ''2026-11-03''\<rparr>),
            saved_manager noon
              [pending_key\<lparr>dailyUsage := 0, lastReset := ''2026-11-03''\<rparr>, fresh_key]))
   \<and> (run sample_runtime [(noon, IncrementUsage ''key_1''), (noon, IncrementUsage ''key_1'')]
       (sample_manager [small_key, twin_key])
     = Inr (saved_manager noon [small_key\<lparr>dailyUsage := 2\<rparr>, twin_key])
   \<and> getAvailableKey sample_runtime noon (saved_manager noon [small_key\<lparr>dailyUsage := 2\<rparr>, twin_key])
     = Inr (Some twin_key, saved_manager noon [small_key\<lparr>dailyUsage := 2\<rparr>, twin_key])
   \<and> id' twin_key = ''key_1'')
   \<and> (run sample_runtime
       [(noon, IncrementUsage ''key_1''), (noon, IncrementUsage ''key_1''),
        (noon, SetupKeys [''AIza-new''] [''cx-new''])]
       (sample_manager [small_key])
     = Inr (saved_manager noon
              [\<lparr>id' = ''key_1'', apiKey = ''AIza-new'', searchEngineId = ''cx-new'',
                dailyUsage = 0, dailyLimit = 100, lastReset = ''2026-11-03'', isActive = True\<rparr>])
   \<and> getAvailableKey sample_runtime noon
         (saved_manager noon
            [\<lparr>id' = ''key_1'', apiKey = ''AIza-new'', searchEngineId = ''cx-new'',
              dailyUsage = 0, dailyLimit = 100, lastReset = ''2026-11-03'', isActive = True\<rparr>])
     = Inr (Some \<lparr>id' = ''key_1'', apiKey = ''AIza-new'', searchEngineId = ''cx-new'',
                  dailyUsage = 0, dailyLimit = 100, lastReset = ''2026-11-03'', isActive = True\<rparr>,
            saved_manager noon
              [\<lparr>id' = ''key_1'', apiKey = ''AIza-new'', searchEngineId = ''cx-new'',
                dailyUsage = 0, dailyLimit = 100, lastReset = ''2026-11-03'', isActive = True\<rparr>]))
   \<and> (incrementUsage sample_runtime noon ''key_1'' (saved_manager noon [big_key])
     = Inr (saved_manager noon [big_key])
   \<and> getAvailableKey sample_runtime noon (saved_manager noon [big_key])
     = Inr (Some big_key, saved_manager noon [big_key])
   \<and> dailyUsage big_key < dailyLimit big_key)"
  using selected_again_pending selected_again_twin selected_again_setup selected_again_big
  by (intro conjI) blast+

subsection \<open>A failed search\<close>

lemma GoogleSearchConfig_getAvailableKey_eq:
  "GoogleSearchConfig_getAvailableKey rt now m = getAvailableKey rt now m"
proof -
  obtain m1 where m1: "resetDailyUsageIfNeeded rt now m = Inr m1"
    using reset_Inr by blast
  show ?thesis
    by (cases "first_available (keys (config m1))")
      (simp_all add: GoogleSearchConfig_getAvailableKey_def getAvailableKey_def m1 and_then_def)
qed











text \<open>
  Across midnight a 403 deactivates the credential that the \<^verbatim>\<open>catch\<close> block selects anew,
  which need not be the acquired one: \<open>key_2\<close> was acquired, \<open>key_1\<close> is deactivated.
\<close>

lemma execute_403_across_midnight:
  "GoogleSearchConfig_getAvailableKey sample_runtime evening (sample_manager [full_key, idle_key])
     = Inr (Some idle_key, sample_manager [full_key, idle_key])
   \<and> execute sample_runtime evening morning
       (failing \<lparr>code = NumCode 403, message = ''quota''\<rparr>) undisturbed
       (sample_manager [full_key, idle_key])
     = Inr (SearchError ''quota'' (NumCode 403)
              \<lparr>totalUsed = 0, totalLimit = 200,
               keysStatus =
                 [\<lparr>key_id = ''key_1'', used = 0, limit = 100, remaining = 100, active = False\<rparr>,
                  \<lparr>key_id = ''key_2'', used = 0, limit = 100, remaining = 100, active = True\<rparr>]\<rparr>,
            saved_manager morning
              [full_key\<lparr>dailyUsage := 0, lastReset := ''2026-11-03'', isActive := False\<rparr>,
               idle_key\<lparr>dailyUsage := 0, lastReset := ''2026-11-03''\<rparr>])"
  by (simp add: execute_def execute_try_def execute_catch_def other_catch_def thrown_by_def
        failing_def garbled_def undisturbed_def
        GoogleSearchConfig_getAvailableKey_def getAvailableKey_def getQuotaStatus_def
        incrementUsage_def disableKey_def reset_eq saveConfig_Inr and_then_def Let_def
        rollover_def sample_defs toString_eval number_add_exact number_sub_exact)

subsection \<open>Sharing\<close>

lemma reset_loop_ref_sim:
  "distinct refs \<Longrightarrow> \<forall>a \<in> set refs. a < length h \<Longrightarrow>
     length (fst (reset_loop_ref today refs h c)) = length h
     \<and> (\<forall>b. b \<notin> set refs \<longrightarrow> fst (reset_loop_ref today refs h c) ! b = h ! b)
     \<and> map (\<lambda>a. fst (reset_loop_ref today refs h c) ! a) refs
         = map (rollover today) (map (\<lambda>a. h ! a) refs)
     \<and> snd (reset_loop_ref today refs h c) = (c \<or> (\<exists>a \<in> set refs. lastReset (h ! a) \<noteq> today))"
proof (induction refs arbitrary: h c)
  case Nil
  then show ?case by simp
next
  case (Cons a refs)
  let ?h1 = "if lastReset (h ! a) \<noteq> today
             then h[a := (h ! a)\<lparr>dailyUsage := 0, lastReset := today, isActive := True\<rparr>] else h"
  let ?c1 = "if lastReset (h ! a) \<noteq> today then True else c"
  have step: "reset_loop_ref today (a # refs) h c = reset_loop_ref today refs ?h1 ?c1"
    by simp
  from Cons.prems have a: "a \<notin> set refs" "a < length h" "distinct refs"
    "\<forall>b \<in> set refs. b < length ?h1"
    by simp_all
  have h1a: "?h1 ! a = rollover today (h ! a)"
    using a(2) by (simp add: rollover_def)
  have h1b: "\<And>b. b \<noteq> a \<Longrightarrow> ?h1 ! b = h ! b" by simp
  note IH = Cons.IH [OF a(3,4), of ?c1]
  let ?h' = "fst (reset_loop_ref today refs ?h1 ?c1)"
  from IH have len: "length ?h' = length h" by simp
  from IH have frame: "\<And>b. b \<notin> set refs \<Longrightarrow> ?h' ! b = ?h1 ! b" by blast
  from IH have m: "map (\<lambda>a. ?h' ! a) refs = map (rollover today) (map (\<lambda>a. ?h1 ! a) refs)"
    by blast
  from IH have fl: "snd (reset_loop_ref today refs ?h1 ?c1)
      = (?c1 \<or> (\<exists>a \<in> set refs. lastReset (?h1 ! a) \<noteq> today))"
    by blast
  have same: "map (\<lambda>b. ?h1 ! b) refs = map (\<lambda>b. h ! b) refs"
  proof (intro map_cong refl)
    fix b assume "b \<in> set refs"
    with a(1) have "b \<noteq> a" by auto
    then show "?h1 ! b = h ! b" by simp
  qed
  have 1: "length (fst (reset_loop_ref today (a # refs) h c)) = length h"
    unfolding step using len .
  have 2: "\<forall>b. b \<notin> set (a # refs) \<longrightarrow> fst (reset_loop_ref today (a # refs) h c) ! b = h ! b"
    unfolding step using frame h1b by auto
  have 3: "map (\<lambda>b. fst (reset_loop_ref today (a # refs) h c) ! b) (a # refs)
         = map (rollover today) (map (\<lambda>b. h ! b) (a # refs))"
    unfolding step using m same frame [OF a(1)] h1a by simp
  have ex: "(\<exists>b \<in> set refs. lastReset (?h1 ! b) \<noteq> today) = (\<exists>b \<in> set refs. lastReset (h ! b) \<noteq> today)"
  proof (intro bex_cong refl)
    fix b assume "b \<in> set refs"
    with a(1) have "b \<noteq> a" by auto
    then show "(lastReset (?h1 ! b) \<noteq> today) = (lastReset (h ! b) \<noteq> today)" by simp
  qed
  have 4: "snd (reset_loop_ref today (a # refs) h c)
      = (c \<or> (\<exists>b \<in> set (a # refs). lastReset (h ! b) \<noteq> today))"
    unfolding step fl ex by auto
  from 1 2 3 4 show ?case by blast
qed

lemma saveConfig_ref_Inr:
  "\<exists>r1. saveConfig_ref rt now r = Inr r1 \<and> heap r1 = heap r \<and> keyRefs r1 = keyRefs r
     \<and> saveConfig rt now (deref r) = Inr (deref r1)"
  by (simp add: saveConfig_ref_def saveConfig_Inr try_catch_def and_then_def
        writeFileSync_def deref_def Let_def)

lemma reset_ref_sim:
  assumes "well_formed r"
  shows "\<exists>r1. resetDailyUsageIfNeeded_ref rt now r = Inr r1
     \<and> length (heap r1) = length (heap r) \<and> keyRefs r1 = keyRefs r
     \<and> resetDailyUsageIfNeeded rt now (deref r) = Inr (deref r1)"
proof -
  from assms have w: "distinct (keyRefs r)" "\<forall>a \<in> set (keyRefs r). a < length (heap r)"
    by (simp_all add: well_formed_def list_all_iff)
  obtain h c where l: "reset_loop_ref (today_of now) (keyRefs r) (heap r) False = (h, c)"
    by (cases "reset_loop_ref (today_of now) (keyRefs r) (heap r) False")
  from reset_loop_ref_sim [OF w, of "today_of now" False] l
  have s: "length h = length (heap r)"
    "map (\<lambda>a. h ! a) (keyRefs r) = map (rollover (today_of now)) (map (\<lambda>a. heap r ! a) (keyRefs r))"
    "c = (\<exists>a \<in> set (keyRefs r). lastReset (heap r ! a) \<noteq> today_of now)"
    by simp_all
  let ?r1 = "r\<lparr>heap := h\<rparr>"
  have d: "deref ?r1
      = (deref r)\<lparr>config := (config (deref r))
           \<lparr>keys := map (rollover (today_of now)) (keys (config (deref r)))\<rparr>\<rparr>"
    by (simp add: deref_def s(2))
  have c': "c = (\<exists>k \<in> set (keys (config (deref r))). lastReset k \<noteq> today_of now)"
    by (simp add: s(3) deref_def)
  show ?thesis
  proof (cases c)
    case True
    obtain r1 where r1: "saveConfig_ref rt now ?r1 = Inr r1" "heap r1 = heap ?r1"
      "keyRefs r1 = keyRefs ?r1" "saveConfig rt now (deref ?r1) = Inr (deref r1)"
      using saveConfig_ref_Inr by blast
    have "resetDailyUsageIfNeeded_ref rt now r = Inr r1"
      using True by (simp add: resetDailyUsageIfNeeded_ref_def l r1(1))
    moreover have "resetDailyUsageIfNeeded rt now (deref r) = Inr (deref r1)"
      using True c' r1(4) by (simp add: reset_eq Let_def d)
    ultimately show ?thesis using r1(2,3) s(1) by simp
  next
    case False
    have "resetDailyUsageIfNeeded_ref rt now r = Inr ?r1"
      using False by (simp add: resetDailyUsageIfNeeded_ref_def l)
    moreover have "resetDailyUsageIfNeeded rt now (deref r) = Inr (deref ?r1)"
      using False c' by (simp add: reset_eq Let_def d)
    ultimately show ?thesis using s(1) by simp
  qed
qed

lemma first_available_ref_sim:
  "first_available (map (\<lambda>a. h ! a) refs) = map_option (\<lambda>a. h ! a) (first_available_ref h refs)"
  by (induction refs) simp_all

lemma first_available_ref_mem: "first_available_ref h refs = Some a \<Longrightarrow> a \<in> set refs"
  by (induction refs) (auto split: if_splits)

lemma getAvailableKey_ref_sim:
  assumes "well_formed r"
  shows "\<exists>x r1. getAvailableKey_ref rt now r = Inr (x, r1)
     \<and> length (heap r1) = length (heap r) \<and> keyRefs r1 = keyRefs r
     \<and> (\<forall>a. x = Some a \<longrightarrow> a \<in> set (keyRefs r1))
     \<and> getAvailableKey rt now (deref r) = Inr (map_option (\<lambda>a. heap r1 ! a) x, deref r1)"
proof -
  from reset_ref_sim [OF assms]
  obtain r1 where r1: "resetDailyUsageIfNeeded_ref rt now r = Inr r1"
    "length (heap r1) = length (heap r)" "keyRefs r1 = keyRefs r"
    "resetDailyUsageIfNeeded rt now (deref r) = Inr (deref r1)"
    by blast
  let ?x = "first_available_ref (heap r1) (keyRefs r1)"
  have 1: "getAvailableKey_ref rt now r = Inr (?x, r1)"
    by (simp add: getAvailableKey_ref_def r1(1) and_then_def)
  have 2: "getAvailableKey rt now (deref r) = Inr (map_option (\<lambda>a. heap r1 ! a) ?x, deref r1)"
  proof -
    have "keys (config (deref r1)) = map (\<lambda>a. heap r1 ! a) (keyRefs r1)"
      by (simp add: deref_def)
    then show ?thesis
      by (simp add: getAvailableKey_def r1(4) and_then_def first_available_ref_sim)
  qed
  have 3: "\<forall>a. ?x = Some a \<longrightarrow> a \<in> set (keyRefs r1)"
    using first_available_ref_mem by blast
  from 1 2 3 r1(2,3) show ?thesis by blast
qed

lemma deref_mutate_outside:
  "a \<notin> set (keyRefs r) \<Longrightarrow> deref (mutate a g r) = deref r"
proof -
  assume a: "a \<notin> set (keyRefs r)"
  have "map (\<lambda>b. (heap r)[a := g (heap r ! a)] ! b) (keyRefs r) = map (\<lambda>b. heap r ! b) (keyRefs r)"
  proof (intro map_cong refl)
    fix b assume "b \<in> set (keyRefs r)"
    with a have "b \<noteq> a" by auto
    then show "(heap r)[a := g (heap r ! a)] ! b = heap r ! b" by simp
  qed
  then show ?thesis by (simp add: deref_def mutate_def)
qed

text \<open>
  C10. On a well-formed heap, when \<^verbatim>\<open>GoogleSearchConfig.getAvailableKey\<close> returns the
  address \<open>a\<close>, that address is allocated and is none of the references in
  \<^verbatim>\<open>this.config.keys\<close>; the object there has the fields of a record of the store, and by
  value the call is the \<open>GoogleSearchConfig_getAvailableKey\<close> of the first model; whatever a
  caller assigns to the fields of the object at \<open>a\<close>, the store, read through its
  references, is unchanged.
\<close>

theorem GoogleSearchConfig_getAvailableKey_fresh_copy:
  assumes "well_formed r"
    and "GoogleSearchConfig_getAvailableKey_ref rt now r = Inr (Some a, r1)"
  shows "a \<notin> set (keyRefs r1) \<and> a < length (heap r1) \<and> well_formed r1
     \<and> (\<exists>b \<in> set (keyRefs r1). heap r1 ! a = heap r1 ! b)
     \<and> GoogleSearchConfig_getAvailableKey rt now (deref r) = Inr (Some (heap r1 ! a), deref r1)
     \<and> (\<forall>g. deref (mutate a g r1) = deref r1)"
proof -
  from getAvailableKey_ref_sim [OF assms(1)]
  obtain x r0 where g: "getAvailableKey_ref rt now r = Inr (x, r0)"
    "length (heap r0) = length (heap r)" "keyRefs r0 = keyRefs r"
    "\<forall>b. x = Some b \<longrightarrow> b \<in> set (keyRefs r0)"
    "getAvailableKey rt now (deref r) = Inr (map_option (\<lambda>b. heap r0 ! b) x, deref r0)"
    by blast
  from assms(2) g(1) obtain b where b: "x = Some b"
    by (cases x) (simp_all add: GoogleSearchConfig_getAvailableKey_ref_def and_then_def)
  let ?k = "heap r0 ! b"
  have copy: "\<lparr>id' = id' ?k, apiKey = apiKey ?k, searchEngineId = searchEngineId ?k,
             dailyUsage = dailyUsage ?k, dailyLimit = dailyLimit ?k,
             lastReset = lastReset ?k, isActive = isActive ?k\<rparr> = ?k"
    by simp
  from assms(2) g(1) b have a: "a = length (heap r0)" and r1: "r1 = r0\<lparr>heap := heap r0 @ [?k]\<rparr>"
    by (simp_all add: GoogleSearchConfig_getAvailableKey_ref_def and_then_def Let_def copy)
  from assms(1) g(2,3) have w0: "\<forall>c \<in> set (keyRefs r0). c < length (heap r0)"
    "distinct (keyRefs r0)"
    by (simp_all add: well_formed_def list_all_iff)
  from g(4) b have bin: "b \<in> set (keyRefs r0)" by simp
  have 1: "a \<notin> set (keyRefs r1)" using w0(1) by (auto simp: a r1)
  have 2: "a < length (heap r1)" by (simp add: a r1)
  have 3: "well_formed r1"
    using w0 by (auto simp: well_formed_def list_all_iff r1)
  have old: "\<And>c. c \<in> set (keyRefs r0) \<Longrightarrow> heap r1 ! c = heap r0 ! c"
    using w0(1) by (simp add: r1 nth_append)
  have new: "heap r1 ! a = ?k" by (simp add: a r1)
  have 4: "\<exists>c \<in> set (keyRefs r1). heap r1 ! a = heap r1 ! c"
    using bin old [OF bin] new by (intro bexI [of _ b]) (simp_all add: r1)
  have "map (\<lambda>c. heap r1 ! c) (keyRefs r0) = map (\<lambda>c. heap r0 ! c) (keyRefs r0)"
    using old by (intro map_cong refl) simp
  then have d: "deref r1 = deref r0" by (simp add: deref_def r1)
  have 5: "GoogleSearchConfig_getAvailableKey rt now (deref r) = Inr (Some (heap r1 ! a), deref r1)"
    by (simp add: GoogleSearchConfig_getAvailableKey_eq g(5) b new d)
  have 6: "\<forall>g. deref (mutate a g r1) = deref r1"
    using deref_mutate_outside [OF 1] by blast
  from 1 2 3 4 5 6 show ?thesis by blast
qed

theorem GoogleSearchConfig_getAvailableKey_fresh_copy_witness:
  "well_formed sample_heap
   \<and> GoogleSearchConfig_getAvailableKey_ref sample_runtime noon sample_heap
       = Inr (Some 2, sample_heap\<lparr>heap := [fresh_key, spent_key, fresh_key]\<rparr>)
   \<and> 2 \<notin> set (keyRefs (sample_heap\<lparr>heap := [fresh_key, spent_key, fresh_key]\<rparr>))
   \<and> deref (mutate 2 (\<lambda>k. k\<lparr>dailyUsage := 99, isActive := False\<rparr>)
              (sample_heap\<lparr>heap := [fresh_key, spent_key, fresh_key]\<rparr>))
       = deref (sample_heap\<lparr>heap := [fresh_key, spent_key, fresh_key]\<rparr>)
   \<and> keys (config (deref (sample_heap\<lparr>heap := [fresh_key, spent_key, fresh_key]\<rparr>)))
       = [spent_key, fresh_key]"
proof -
  let ?r1 = "sample_heap\<lparr>heap := [fresh_key, spent_key, fresh_key]\<rparr>"
  have 1: "well_formed sample_heap"
    by (simp add: well_formed_def sample_heap_def)
  have 2: "GoogleSearchConfig_getAvailableKey_ref sample_runtime noon sample_heap
       = Inr (Some 2, ?r1)"
    by (simp add: GoogleSearchConfig_getAvailableKey_ref_def getAvailableKey_ref_def
          resetDailyUsageIfNeeded_ref_def and_then_def Let_def sample_heap_def sample_defs)
  from GoogleSearchConfig_getAvailableKey_fresh_copy [OF 1 2]
  have 3: "2 \<notin> set (keyRefs ?r1)"
    and 4: "\<forall>g. deref (mutate 2 g ?r1) = deref ?r1"
    by blast+
  from 4 have 5: "deref (mutate 2 (\<lambda>k. k\<lparr>dailyUsage := 99, isActive := False\<rparr>) ?r1) = deref ?r1"
    by blast
  have 6: "keys (config (deref ?r1)) = [spent_key, fresh_key]"
    by (simp add: deref_def sample_heap_def)
  from 1 2 3 5 6 show ?thesis by (intro conjI)
qed

text \<open>
  By contrast the reference that \<^verbatim>\<open>GlobalConfigManager.getAvailableKey\<close> returns is one of
  the array: an assignment through it that changes the object changes the store.
\<close>

lemma getAvailableKey_ref_shares:
  assumes "well_formed r" and "getAvailableKey_ref rt now r = Inr (Some b, r1)"
    and "g (heap r1 ! b) \<noteq> heap r1 ! b"
  shows "b \<in> set (keyRefs r1) \<and> deref (mutate b g r1) \<noteq> deref r1"
proof -
  from getAvailableKey_ref_sim [OF assms(1), of rt now] assms(2)
  have bin: "b \<in> set (keyRefs r1)" and len: "length (heap r1) = length (heap r)"
    and refs: "keyRefs r1 = keyRefs r"
    by auto
  from assms(1) refs len bin have lt: "b < length (heap r1)"
    by (auto simp: well_formed_def list_all_iff)
  have "keys (config (deref (mutate b g r1))) \<noteq> keys (config (deref r1))"
  proof
    assume "keys (config (deref (mutate b g r1))) = keys (config (deref r1))"
    then have "map (\<lambda>c. (heap r1)[b := g (heap r1 ! b)] ! c) (keyRefs r1)
               = map (\<lambda>c. heap r1 ! c) (keyRefs r1)"
      by (simp add: deref_def mutate_def)
    with bin have "(heap r1)[b := g (heap r1 ! b)] ! b = heap r1 ! b" by simp
    with lt assms(3) show False by simp
  qed
  then have "deref (mutate b g r1) \<noteq> deref r1" by auto
  with bin show ?thesis by simp
qed

end
